theory Spec2Isabelle
  imports Main "HOL-Library.Sublist"
begin

section \<open>Python values\<close>

text \<open>
  A Python \<open>str\<close> is a sequence of Unicode code points; a code point is an integer,
  as \<open>ord\<close> gives it. \<open>str\<close> turns an Isabelle literal into such a sequence, so that
  \<open>str ''[a]''\<close> is the Python string \<open>"[a]"\<close>.
\<close>

type_synonym pystr = "int list"

definition str :: "string \<Rightarrow> pystr" where
  "str s = map of_char s"

text \<open>The characters the module names, by code point.\<close>

definition newline :: int where "newline = 10"
definition space :: int where "space = 32"
definition dquote :: int where "dquote = 34"
definition hash :: int where "hash = 35"
definition lparen :: int where "lparen = 40"
definition rparen :: int where "rparen = 41"
definition star :: int where "star = 42"
definition comma :: int where "comma = 44"
definition lbrack :: int where "lbrack = 91"
definition backslash :: int where "backslash = 92"
definition rbrack :: int where "rbrack = 93"

lemmas char_defs =
  newline_def space_def dquote_def hash_def lparen_def rparen_def star_def comma_def
  lbrack_def backslash_def rbrack_def

text \<open>
  The values a variable of the module can hold: what \<open>json.loads\<close> produces
  (\<open>None\<close>, \<open>bool\<close>, \<open>int\<close>, \<open>float\<close>, \<open>str\<close>, \<open>list\<close>, \<open>dict\<close>) and the list
  of strings \<open>re.findall\<close> produces. A \<open>float\<close> is kept as the literal it was read
  from; the module does no arithmetic. A \<open>dict\<close> is the list of its items in insertion
  order, with distinct keys.
\<close>

datatype pyval =
    PNone
  | PBool bool
  | PInt int
  | PFloat pystr
  | PStr pystr
  | PList "pyval list"
  | PDict "(pystr \<times> pyval) list"

text \<open>
  The exceptions that can travel through the module: \<open>TypeError\<close> (raised by
  \<open>json.loads\<close> on a non-string and by \<open>str.join\<close>), \<open>JSONDecodeError\<close> (raised by
  \<open>json.loads\<close> on a string that is not JSON), \<open>UnicodeEncodeError\<close> (raised by
  \<open>print\<close> on a text the console cannot encode), and whatever the completion backend
  raises, which the module knows nothing about.
\<close>

datatype py_error =
    TypeError
  | JSONDecodeError
  | UnicodeEncodeError
  | BackendError pystr

section \<open>The string operations of \<open>generate_script\<close>\<close>

subsection \<open>\<open>str.replace\<close>\<close>

text \<open>
  \<open>s.replace(old, new)\<close>: the occurrences of \<open>old\<close> are replaced from left to right,
  without overlap. With an empty \<open>old\<close>, Python puts \<open>new\<close> before every character and
  at the end.
\<close>

function replace :: "pystr \<Rightarrow> pystr \<Rightarrow> pystr \<Rightarrow> pystr" where
  "replace old new s =
     (if old = [] then new @ concat (map (\<lambda>x. x # new) s)
      else if s = [] then []
      else if take (length old) s = old then new @ replace old new (drop (length old) s)
      else hd s # replace old new (tl s))"
  by pat_completeness auto
termination
  by (relation "measure (\<lambda>(old, new, s). length s)") auto

declare replace.simps [simp del]

subsection \<open>\<open>re.sub\<close> and \<open>re.findall\<close> for a pattern \<open>\<bsol>o.*\<bsol>c\<close>\<close>

text \<open>
  Both regular expressions of the module, \<open>\<bsol>[.*\<bsol>]\<close> and \<open>\<bsol>(.*\<bsol>)\<close>, are an opening
  character, a greedy \<open>.*\<close> and a closing character. The module compiles them without
  flags, so \<open>.\<close> matches every character but the newline.
\<close>

definition dot_matches :: "int \<Rightarrow> bool" where
  "dot_matches ch \<longleftrightarrow> ch \<noteq> newline"

text \<open>
  The backtracking of \<open>.*\<close> followed by the literal \<open>c\<close>: \<open>.*\<close> first takes \<open>k\<close>
  characters, and gives them back one by one until the character after it is \<open>c\<close>.
  The result is the number of characters \<open>.*\<close> keeps.
\<close>

fun star_then :: "int \<Rightarrow> pystr \<Rightarrow> nat \<Rightarrow> nat option" where
  "star_then c xs 0 = (if 0 < length xs \<and> xs ! 0 = c then Some 0 else None)"
| "star_then c xs (Suc k) =
     (if Suc k < length xs \<and> xs ! Suc k = c then Some (Suc k) else star_then c xs k)"

text \<open>
  A match of \<open>\<bsol>o.*\<bsol>c\<close> that starts at the first character of \<open>s\<close>: its length, or
  \<open>None\<close>. The greedy \<open>.*\<close> starts from the longest run of characters it can match.
\<close>

definition match_here :: "int \<Rightarrow> int \<Rightarrow> pystr \<Rightarrow> nat option" where
  "match_here o' c s =
     (case s of
        [] \<Rightarrow> None
      | x # xs \<Rightarrow>
          if x = o' then
            map_option (\<lambda>k. k + 2) (star_then c xs (length (takeWhile dot_matches xs)))
          else None)"

lemma star_then_le: "star_then c xs k = Some n \<Longrightarrow> n \<le> k"
  by (induction k) (auto split: if_splits)

lemma match_here_pos: "match_here o' c s = Some n \<Longrightarrow> 2 \<le> n"
  by (auto simp: match_here_def split: list.splits if_splits)

text \<open>
  \<open>re.sub(pattern, '', s)\<close>: the scan goes from left to right; where the pattern
  matches, the match is dropped and the scan goes on after it; elsewhere the character
  is kept.
\<close>

function re_sub :: "int \<Rightarrow> int \<Rightarrow> pystr \<Rightarrow> pystr" where
  "re_sub o' c s =
     (case s of
        [] \<Rightarrow> []
      | x # xs \<Rightarrow>
          (case match_here o' c s of
             Some n \<Rightarrow> re_sub o' c (drop n s)
           | None \<Rightarrow> x # re_sub o' c xs))"
  by pat_completeness auto
termination
  by (relation "measure (\<lambda>(o', c, s). length s)") (auto dest: match_here_pos)

declare re_sub.simps [simp del]

text \<open>\<open>re.findall(pattern, s)\<close>: the matches of the same scan, in order.\<close>

function re_findall :: "int \<Rightarrow> int \<Rightarrow> pystr \<Rightarrow> pystr list" where
  "re_findall o' c s =
     (case s of
        [] \<Rightarrow> []
      | x # xs \<Rightarrow>
          (case match_here o' c s of
             Some n \<Rightarrow> take n s # re_findall o' c (drop n s)
           | None \<Rightarrow> re_findall o' c xs))"
  by pat_completeness auto
termination
  by (relation "measure (\<lambda>(o', c, s). length s)") (auto dest: match_here_pos)

declare re_findall.simps [simp del]

section \<open>The completion backend\<close>

text \<open>
  Every prompt of the module is an f-string: a fixed text with the arguments of the
  function put in. A prompt is kept as the template it comes from and the values put
  in; the fixed text plays no part in what the module does with the answer.
\<close>

datatype prompt =
    ScriptPrompt pystr
  | SearchTermsPrompt pystr int pystr
  | TitlePrompt pystr
  | DescriptionPrompt pystr pystr

datatype model = gpt_35_turbo_16k_0613

datatype role = user

record message =
  role :: role
  content :: prompt

text \<open>
  \<open>g4f.ChatCompletion.create(model=..., messages=...)\<close> is outside the module. It is a
  parameter of every function here: it reads and changes a state of its own (the
  network, the provider), and either returns a string or raises.
\<close>

type_synonym 's backend = "model \<Rightarrow> message list \<Rightarrow> 's \<Rightarrow> (py_error + pystr) \<times> 's"

section \<open>The console\<close>

text \<open>
  \<open>print(colored(text, colour))\<close> writes \<open>text\<close>, between two escape sequences made
  of ASCII characters, to the standard output. The output stream encodes what it is
  given; with the default error handler a character it cannot encode raises
  \<open>UnicodeEncodeError\<close>. Which characters can be encoded depends on where the program
  runs, so the console is a parameter: a predicate on the code points above ASCII.
  Every encoding a console uses can encode the ASCII characters. What is written is
  not kept; only whether the write raises matters to the module.
\<close>

type_synonym console = "int \<Rightarrow> bool"

definition can_encode :: "console \<Rightarrow> int \<Rightarrow> bool" where
  "can_encode console ch \<longleftrightarrow> (0 \<le> ch \<and> ch < 128) \<or> console ch"

definition printable :: "console \<Rightarrow> pystr \<Rightarrow> bool" where
  "printable console text \<longleftrightarrow> list_all (can_encode console) text"

definition py_print :: "console \<Rightarrow> pystr \<Rightarrow> py_error + unit" where
  "py_print console text = (if printable console text then Inr () else Inl UnicodeEncodeError)"

text \<open>
  A console in UTF-8 encodes every code point but the surrogates \<open>U+D800\<close> to
  \<open>U+DFFF\<close>.
\<close>

definition utf8_console :: console where
  "utf8_console ch \<longleftrightarrow> (128 \<le> ch \<and> ch < 55296) \<or> (57343 < ch \<and> ch \<le> 1114111)"

section \<open>\<open>generate_script\<close>\<close>

text \<open>
  The result is a string or \<open>None\<close>. The answer is printed (line 49) before it is
  looked at. Neither an exception of the backend nor one of \<open>print\<close> is caught.
\<close>

definition generate_script ::
  "console \<Rightarrow> 's backend \<Rightarrow> pystr \<Rightarrow> 's \<Rightarrow> (py_error + pystr option) \<times> 's" where
  "generate_script console create video_subject st =
     (case create gpt_35_turbo_16k_0613
             [\<lparr>role = user, content = ScriptPrompt video_subject\<rparr>] st of
        (Inl e, st') \<Rightarrow> (Inl e, st')
      | (Inr response, st') \<Rightarrow>
          (case py_print console response of
             Inl e \<Rightarrow> (Inl e, st')
           | Inr _ \<Rightarrow>
               if response \<noteq> [] then
                 (let response = replace [star] [] response;
                      response = replace [hash] [] response;
                      response = re_sub lbrack rbrack response;
                      response = re_sub lparen rparen response
                  in (Inr (Some (response @ [space])), st'))
               else
                 (case py_print console (str ''[-] GPT returned an empty response.'') of
                    Inl e \<Rightarrow> (Inl e, st')
                  | Inr _ \<Rightarrow> (Inr None, st'))))"


section \<open>\<open>json.loads\<close>\<close>

text \<open>
  The decoder of the standard library, for the default arguments the module calls it
  with (\<open>strict\<close> strings, no hooks). It is not part of the module; it is written out
  here so that \<open>get_search_terms\<close> can be run on a given answer. Every way the decoder
  rejects a string is the one exception \<open>JSONDecodeError\<close>: the module never looks at
  the message or the position.
\<close>

definition lbrace :: int where "lbrace = 123"
definition rbrace :: int where "rbrace = 125"
definition colon :: int where "colon = 58"
definition minus :: int where "minus = 45"


subsection \<open>Whitespace and digits\<close>

text \<open>The decoder skips \<open>' '\<close>, \<open>'\t'\<close>, \<open>'\n'\<close> and \<open>'\r'\<close> between tokens.\<close>

definition json_ws :: "int \<Rightarrow> bool" where
  "json_ws ch \<longleftrightarrow> ch = 32 \<or> ch = 9 \<or> ch = 10 \<or> ch = 13"

definition skip_ws :: "pystr \<Rightarrow> pystr" where
  "skip_ws s = dropWhile json_ws s"

definition is_digit :: "int \<Rightarrow> bool" where
  "is_digit ch \<longleftrightarrow> 48 \<le> ch \<and> ch \<le> 57"


subsection \<open>Strings\<close>

text \<open>
  \<open>scanstring\<close> reads a string after its opening quote and returns the decoded text and
  the input after the closing quote. A control character (below \<open>0x20\<close>) inside the
  string, an unknown escape, a \<open>\<bsol>u\<close> not followed by four hexadecimal digits and a
  missing closing quote are errors. A \<open>\<bsol>u\<close> escape of a high surrogate followed by a
  \<open>\<bsol>u\<close> escape of a low surrogate is one character. \<open>scan_escape\<close> reads what
  follows a backslash: the character meant, and how many characters of input it took.
\<close>

definition hex_value :: "int \<Rightarrow> int option" where
  "hex_value ch =
     (if 48 \<le> ch \<and> ch \<le> 57 then Some (ch - 48)
      else if 97 \<le> ch \<and> ch \<le> 102 then Some (ch - 87)
      else if 65 \<le> ch \<and> ch \<le> 70 then Some (ch - 55)
      else None)"

fun hex_digits :: "nat \<Rightarrow> pystr \<Rightarrow> int \<Rightarrow> int option" where
  "hex_digits 0 s acc = Some acc"
| "hex_digits (Suc n) [] acc = None"
| "hex_digits (Suc n) (c # cs) acc =
     (case hex_value c of None \<Rightarrow> None | Some d \<Rightarrow> hex_digits n cs (acc * 16 + d))"

definition decode_uXXXX :: "pystr \<Rightarrow> int option" where
  "decode_uXXXX s = hex_digits (Suc (Suc (Suc (Suc 0)))) s 0"

definition unescape :: "int \<Rightarrow> int option" where
  "unescape e =
     (if e = 34 then Some 34
      else if e = 92 then Some 92
      else if e = 47 then Some 47
      else if e = 98 then Some 8
      else if e = 102 then Some 12
      else if e = 110 then Some 10
      else if e = 114 then Some 13
      else if e = 116 then Some 9
      else None)"

definition scan_escape :: "pystr \<Rightarrow> (int \<times> nat) option" where
  "scan_escape s =
     (case s of
        [] \<Rightarrow> None
      | e # es \<Rightarrow>
          if e \<noteq> 117 then map_option (\<lambda>ch. (ch, 1)) (unescape e)
          else
            (case decode_uXXXX es of
               None \<Rightarrow> None
             | Some uni \<Rightarrow>
                 (case (if 55296 \<le> uni \<and> uni \<le> 56319 \<and> take 2 (drop 4 es) = [backslash, 117]
                        then decode_uXXXX (drop 6 es) else None) of
                    None \<Rightarrow> Some (uni, 5)
                  | Some uni2 \<Rightarrow>
                      if 56320 \<le> uni2 \<and> uni2 \<le> 57343
                      then Some (65536 + (uni - 55296) * 1024 + (uni2 - 56320), 11)
                      else Some (uni, 5))))"

definition push_char :: "int \<Rightarrow> py_error + pystr \<times> pystr \<Rightarrow> py_error + pystr \<times> pystr" where
  "push_char ch res = (case res of Inl e \<Rightarrow> Inl e | Inr (t, rest) \<Rightarrow> Inr (ch # t, rest))"

fun scanstring :: "pystr \<Rightarrow> py_error + pystr \<times> pystr" where
  "scanstring [] = Inl JSONDecodeError"
| "scanstring (c # cs) =
     (if c = dquote then Inr ([], cs)
      else if c = backslash then
        (case scan_escape cs of
           None \<Rightarrow> Inl JSONDecodeError
         | Some (ch, n) \<Rightarrow> push_char ch (scanstring (drop n cs)))
      else if c < 32 then Inl JSONDecodeError
      else push_char c (scanstring cs))"


subsection \<open>Numbers\<close>

text \<open>
  A number is \<open>-?(0|[1-9][0-9]*)(\.[0-9]+)?([eE][-+]?[0-9]+)?\<close>, the longest such
  prefix of the input. Without a fraction and an exponent it is an \<open>int\<close>, otherwise a
  \<open>float\<close>.
\<close>

definition digits_value :: "pystr \<Rightarrow> int" where
  "digits_value ds = foldl (\<lambda>acc d. acc * 10 + (d - 48)) 0 ds"

definition int_part :: "pystr \<Rightarrow> pystr" where
  "int_part s =
     (case s of
        [] \<Rightarrow> []
      | c # cs \<Rightarrow>
          if c = 48 then [c]
          else if is_digit c then c # takeWhile is_digit cs
          else [])"

definition frac_part :: "pystr \<Rightarrow> pystr" where
  "frac_part s =
     (case s of
        p # d # r \<Rightarrow> if p = 46 \<and> is_digit d then p # takeWhile is_digit (d # r) else []
      | _ \<Rightarrow> [])"

definition exp_part :: "pystr \<Rightarrow> pystr" where
  "exp_part s =
     (case s of
        [] \<Rightarrow> []
      | e # r \<Rightarrow>
          if e = 101 \<or> e = 69 then
            (let sg = (case r of
                         [] \<Rightarrow> []
                       | g # _ \<Rightarrow> if g = 43 \<or> g = 45 then [g] else []);
                 ds = takeWhile is_digit (drop (length sg) r)
             in if ds = [] then [] else e # sg @ ds)
          else [])"

definition match_number :: "pystr \<Rightarrow> (pyval \<times> pystr) option" where
  "match_number s =
     (let sign = (if take 1 s = [minus] then [minus] else []);
          s1 = drop (length sign) s;
          integer = int_part s1
      in if integer = [] then None
         else
           (let s2 = drop (length integer) s1;
                frac = frac_part s2;
                s3 = drop (length frac) s2;
                exp = exp_part s3;
                s4 = drop (length exp) s3
            in if frac = [] \<and> exp = [] then
                 Some (PInt (if sign = [] then digits_value integer
                             else - digits_value integer), s4)
               else Some (PFloat (sign @ integer @ frac @ exp), s4)))"

subsection \<open>Values, arrays and objects\<close>

text \<open>
  \<open>dict_set\<close> is \<open>d[k] = v\<close>: a key that is present keeps its place and takes the new
  value, a new key goes to the end.
\<close>

definition starts_with :: "pystr \<Rightarrow> pystr \<Rightarrow> bool" where
  "starts_with lit s \<longleftrightarrow> take (length lit) s = lit"

fun dict_set :: "pystr \<Rightarrow> pyval \<Rightarrow> (pystr \<times> pyval) list \<Rightarrow> (pystr \<times> pyval) list" where
  "dict_set k v [] = [(k, v)]"
| "dict_set k v ((k', v') # d) = (if k' = k then (k', v) # d else (k', v') # dict_set k v d)"

lemma scanstring_length: "scanstring s = Inr (t, r) \<Longrightarrow> length r < length s"
proof (induction s arbitrary: t r rule: scanstring.induct)
  case 1
  then show ?case by simp
next
  case (2 c cs)
  show ?case
  proof (cases "c = dquote")
    case True
    with "2.prems" show ?thesis by simp
  next
    case nq: False
    show ?thesis
    proof (cases "c = backslash")
      case True
      with nq "2.prems" obtain ch n t' where e: "scan_escape cs = Some (ch, n)"
        and r: "scanstring (drop n cs) = Inr (t', r)"
        by (auto simp: push_char_def split: option.splits sum.splits)
      from "2.IH"(1) [OF nq True e refl r] have "length r < length (drop n cs)" .
      then show ?thesis by simp
    next
      case False
      with nq "2.prems" obtain t' where r: "scanstring cs = Inr (t', r)" and "\<not> c < 32"
        by (auto simp: push_char_def split: sum.splits if_splits)
      from "2.IH"(2) [OF nq False this(2) r] show ?thesis by simp
    qed
  qed
qed

lemma skip_ws_le: "length (skip_ws s) \<le> length s"
  by (simp add: skip_ws_def length_dropWhile_le)

lemma skip_ws_Cons: "skip_ws s = d # ds \<Longrightarrow> length ds < length s"
  using skip_ws_le [of s] by simp


text \<open>
  \<open>scan_once s\<close> reads one JSON value at the start of \<open>s\<close>. \<open>parse_array s vals\<close> is
  the loop of the array reader: \<open>s\<close> is at the start of the next element and \<open>vals\<close>
  are the elements read so far. \<open>parse_object s pairs\<close> is the loop of the object
  reader, with \<open>s\<close> at the quote of the next key. The test \<open>length ds < length s\<close>
  before a loop goes round again is always true, since an element and a comma have
  been read; it is written out to make the recursion well-founded.
\<close>

function scan_once :: "pystr \<Rightarrow> py_error + pyval \<times> pystr"
  and parse_array :: "pystr \<Rightarrow> pyval list \<Rightarrow> py_error + pyval \<times> pystr"
  and parse_object :: "pystr \<Rightarrow> (pystr \<times> pyval) list \<Rightarrow> py_error + pyval \<times> pystr"
where
  "scan_once s =
     (case s of
        [] \<Rightarrow> Inl JSONDecodeError
      | c # cs \<Rightarrow>
          if c = dquote then
            (case scanstring cs of Inl e \<Rightarrow> Inl e | Inr (t, r) \<Rightarrow> Inr (PStr t, r))
          else if c = lbrace then
            (case skip_ws cs of
               [] \<Rightarrow> Inl JSONDecodeError
             | d # ds \<Rightarrow> if d = rbrace then Inr (PDict [], ds) else parse_object (d # ds) [])
          else if c = lbrack then
            (case skip_ws cs of
               [] \<Rightarrow> Inl JSONDecodeError
             | d # ds \<Rightarrow> if d = rbrack then Inr (PList [], ds) else parse_array (d # ds) [])
          else if starts_with (str ''null'') s then Inr (PNone, drop 4 s)
          else if starts_with (str ''true'') s then Inr (PBool True, drop 4 s)
          else if starts_with (str ''false'') s then Inr (PBool False, drop 5 s)
          else if starts_with (str ''NaN'') s then Inr (PFloat (str ''NaN''), drop 3 s)
          else if starts_with (str ''Infinity'') s then Inr (PFloat (str ''Infinity''), drop 8 s)
          else if starts_with (str ''-Infinity'') s then Inr (PFloat (str ''-Infinity''), drop 9 s)
          else (case match_number s of None \<Rightarrow> Inl JSONDecodeError | Some res \<Rightarrow> Inr res))"
| "parse_array s vals =
     (case scan_once s of
        Inl e \<Rightarrow> Inl e
      | Inr (val, r) \<Rightarrow>
          (case skip_ws r of
             [] \<Rightarrow> Inl JSONDecodeError
           | d # ds \<Rightarrow>
               if d = rbrack then Inr (PList (vals @ [val]), ds)
               else if d \<noteq> comma then Inl JSONDecodeError
               else if length ds < length s then parse_array (skip_ws ds) (vals @ [val])
               else Inl JSONDecodeError))"
| "parse_object s pairs =
     (case s of
        [] \<Rightarrow> Inl JSONDecodeError
      | q # qs \<Rightarrow>
          if q \<noteq> dquote then Inl JSONDecodeError
          else
            (case scanstring qs of
               Inl e \<Rightarrow> Inl e
             | Inr (key, r) \<Rightarrow>
                 (case skip_ws r of
                    [] \<Rightarrow> Inl JSONDecodeError
                  | p # r1 \<Rightarrow>
                      if p \<noteq> colon then Inl JSONDecodeError
                      else
                        (case scan_once (skip_ws r1) of
                           Inl e \<Rightarrow> Inl e
                         | Inr (val, r2) \<Rightarrow>
                             (case skip_ws r2 of
                                [] \<Rightarrow> Inl JSONDecodeError
                              | d # ds \<Rightarrow>
                                  if d = rbrace then Inr (PDict (dict_set key val pairs), ds)
                                  else if d \<noteq> comma then Inl JSONDecodeError
                                  else if length ds < length s then
                                    parse_object (skip_ws ds) (dict_set key val pairs)
                                  else Inl JSONDecodeError)))))"
  by pat_completeness auto
termination
proof (relation "measure (\<lambda>x. case x of
            Inl s \<Rightarrow> 2 * length s
          | Inr (Inl (s, vals)) \<Rightarrow> 2 * length s + 1
          | Inr (Inr (s, pairs)) \<Rightarrow> 2 * length s + 1)", goal_cases)
  case 1
  show ?case by simp
next
  case (2 s c cs d ds)
  from skip_ws_Cons [OF 2(4)] 2(1) show ?case by simp
next
  case (3 s c cs d ds)
  from skip_ws_Cons [OF 3(5)] 3(1) show ?case by simp
next
  case (4 s vals)
  show ?case by simp
next
  case (5 s vals b val r d ds)
  from 5 skip_ws_le [of ds] show ?case by simp
next
  case (6 s pairs q qs b key r p r1)
  from 6 have "scanstring qs = Inr (key, r)" by simp
  then have "length r < length qs" by (rule scanstring_length)
  moreover from 6 have "skip_ws r = p # r1" by simp
  then have "length r1 < length r" by (rule skip_ws_Cons)
  ultimately show ?case using skip_ws_le [of r1] 6(1) by simp
next
  case (7 s pairs q qs b key r p r1 b' val r2 d ds)
  from 7 skip_ws_le [of ds] show ?case by simp
qed


declare scan_once.simps [simp del] parse_array.simps [simp del] parse_object.simps [simp del]

text \<open>
  \<open>decode\<close> is \<open>JSONDecoder.decode\<close>: whitespace, one value, whitespace, end of input.
  \<open>json.loads\<close> takes any object: a \<open>str\<close> is decoded (a leading byte order mark is
  refused), anything else that is not \<open>bytes\<close> or \<open>bytearray\<close> is a \<open>TypeError\<close>.
\<close>

definition decode :: "pystr \<Rightarrow> py_error + pyval" where
  "decode s =
     (case scan_once (skip_ws s) of
        Inl e \<Rightarrow> Inl e
      | Inr (obj, r) \<Rightarrow> if skip_ws r = [] then Inr obj else Inl JSONDecodeError)"

definition json_loads :: "pyval \<Rightarrow> py_error + pyval" where
  "json_loads s =
     (case s of
        PStr t \<Rightarrow> if starts_with [65279] t then Inl JSONDecodeError else decode t
      | _ \<Rightarrow> Inl TypeError)"


section \<open>\<open>str.join\<close> and \<open>str.strip\<close>\<close>

text \<open>
  \<open>sep.join(v)\<close> iterates over \<open>v\<close>: the elements of a list, the keys of a dict, the
  characters of a string. Every item has to be a \<open>str\<close>; an item that is not, and a
  \<open>v\<close> that cannot be iterated over, raise \<open>TypeError\<close>.
\<close>

fun join_strs :: "pystr \<Rightarrow> pystr list \<Rightarrow> pystr" where
  "join_strs sep [] = []"
| "join_strs sep [t] = t"
| "join_strs sep (t # u # ts) = t @ sep @ join_strs sep (u # ts)"

fun as_strs :: "pyval list \<Rightarrow> pystr list option" where
  "as_strs [] = Some []"
| "as_strs (PStr t # xs) = map_option (\<lambda>ts. t # ts) (as_strs xs)"
| "as_strs (_ # xs) = None"

definition py_join :: "pystr \<Rightarrow> pyval \<Rightarrow> py_error + pystr" where
  "py_join sep v =
     (case v of
        PList xs \<Rightarrow> (case as_strs xs of None \<Rightarrow> Inl TypeError | Some ts \<Rightarrow> Inr (join_strs sep ts))
      | PDict kvs \<Rightarrow> Inr (join_strs sep (map fst kvs))
      | PStr t \<Rightarrow> Inr (join_strs sep (map (\<lambda>ch. [ch]) t))
      | _ \<Rightarrow> Inl TypeError)"

text \<open>
  \<open>s.strip()\<close> removes the leading and the trailing characters for which
  \<open>str.isspace\<close> holds.
\<close>

definition py_isspace :: "int \<Rightarrow> bool" where
  "py_isspace ch \<longleftrightarrow>
     (9 \<le> ch \<and> ch \<le> 13) \<or> (28 \<le> ch \<and> ch \<le> 32) \<or> ch = 133 \<or> ch = 160 \<or> ch = 5760
     \<or> (8192 \<le> ch \<and> ch \<le> 8202) \<or> ch = 8232 \<or> ch = 8233 \<or> ch = 8239 \<or> ch = 8287
     \<or> ch = 12288"

definition strip :: "pystr \<Rightarrow> pystr" where
  "strip s = rev (dropWhile py_isspace (rev (dropWhile py_isspace s)))"

section \<open>\<open>get_search_terms\<close>\<close>

text \<open>
  \<open>int_str\<close> is \<open>str\<close> of an \<open>int\<close>, as an f-string puts \<open>{amount}\<close>: the decimal
  digits, after a minus sign for a negative number.
\<close>

function nat_digits :: "nat \<Rightarrow> pystr" where
  "nat_digits n = (if n < 10 then [48 + int n] else nat_digits (n div 10) @ [48 + int (n mod 10)])"
  by pat_completeness auto
termination
  by (relation "measure (\<lambda>n. n)") auto

declare nat_digits.simps [simp del]

definition int_str :: "int \<Rightarrow> pystr" where
  "int_str i = (if i < 0 then minus # nat_digits (nat (- i)) else nat_digits (nat i))"

text \<open>
  \<open>search_terms\<close> holds whatever \<open>json.loads\<close> returned. The \<open>try\<close> covers the first
  \<open>json.loads\<close> only, and \<open>except Exception\<close> takes every exception it raises. In the
  handler a notice is printed, \<open>re.findall\<close> gives a list of strings, a second notice
  is printed when the list is empty, and the list is what the second \<open>json.loads\<close> is
  called with. The f-string of the last message is built before it is printed, so its
  \<open>', '.join(search_terms)\<close> raises first; then \<open>print\<close> can raise on the message.
\<close>

definition get_search_terms ::
  "console \<Rightarrow> 's backend \<Rightarrow> pystr \<Rightarrow> int \<Rightarrow> pystr \<Rightarrow> 's \<Rightarrow> (py_error + pyval) \<times> 's" where
  "get_search_terms console create video_subject amount script st =
     (case create gpt_35_turbo_16k_0613
             [\<lparr>role = user, content = SearchTermsPrompt video_subject amount script\<rparr>] st of
        (Inl e, st') \<Rightarrow> (Inl e, st')
      | (Inr response, st') \<Rightarrow>
          (case (case json_loads (PStr response) of
                   Inr search_terms \<Rightarrow> Inr search_terms
                 | Inl _ \<Rightarrow>
                     (case py_print console
                             (str ''[*] GPT returned an unformatted response. Attempting to clean...'') of
                        Inl e \<Rightarrow> Inl e
                      | Inr _ \<Rightarrow>
                          (let search_terms = re_findall lbrack rbrack response
                           in case (if search_terms = []
                                    then py_print console (str ''[-] Could not parse response.'')
                                    else Inr ()) of
                                Inl e \<Rightarrow> Inl e
                              | Inr _ \<Rightarrow> json_loads (PList (map PStr search_terms))))) of
             Inl e \<Rightarrow> (Inl e, st')
           | Inr search_terms \<Rightarrow>
               (case py_join (str '', '') search_terms of
                  Inl e \<Rightarrow> (Inl e, st')
                | Inr joined \<Rightarrow>
                    (case py_print console
                            (str ''\<newline>Generated '' @ int_str amount
                               @ str '' search terms: '' @ joined) of
                       Inl e \<Rightarrow> (Inl e, st')
                     | Inr _ \<Rightarrow> (Inr search_terms, st')))))"

section \<open>\<open>generate_metadata\<close>\<close>

text \<open>
  \<open>generate_metadata\<close> prints nothing itself; the console is the one
  \<open>get_search_terms\<close> prints to.
\<close>

definition generate_metadata ::
  "console \<Rightarrow> 's backend \<Rightarrow> pystr \<Rightarrow> pystr \<Rightarrow> 's
     \<Rightarrow> (py_error + pystr \<times> pystr \<times> pyval) \<times> 's" where
  "generate_metadata console create video_subject script st =
     (case create gpt_35_turbo_16k_0613
             [\<lparr>role = user, content = TitlePrompt video_subject\<rparr>] st of
        (Inl e, st1) \<Rightarrow> (Inl e, st1)
      | (Inr title_response, st1) \<Rightarrow>
          (let title = strip title_response
           in case create gpt_35_turbo_16k_0613
                     [\<lparr>role = user, content = DescriptionPrompt video_subject script\<rparr>] st1 of
                (Inl e, st2) \<Rightarrow> (Inl e, st2)
              | (Inr description_response, st2) \<Rightarrow>
                  (let description = strip description_response
                   in case get_search_terms console create video_subject 6 script st2 of
                        (Inl e, st3) \<Rightarrow> (Inl e, st3)
                      | (Inr keywords, st3) \<Rightarrow> (Inr (title, description, keywords), st3))))"

section \<open>Removal of a whole span, line by line\<close>

text \<open>
  What the specification says the two substitutions do, written without any
  matching: \<open>remove_first_to_last o c s\<close> removes everything from the first \<open>o\<close> of
  \<open>s\<close> to the last \<open>c\<close> of \<open>s\<close>, both included, when there is a \<open>c\<close> after the first
  \<open>o\<close>, and leaves \<open>s\<close> as it is otherwise. \<open>split_lines\<close> is \<open>s.split('\n')\<close> and
  \<open>join_lines\<close> is \<open>'\n'.join(ls)\<close>.
\<close>

definition remove_first_to_last :: "int \<Rightarrow> int \<Rightarrow> pystr \<Rightarrow> pystr" where
  "remove_first_to_last o' c s =
     (case dropWhile (\<lambda>x. x \<noteq> o') s of
        [] \<Rightarrow> s
      | x # body \<Rightarrow>
          if c \<in> set body then
            takeWhile (\<lambda>x. x \<noteq> o') s @ rev (takeWhile (\<lambda>x. x \<noteq> c) (rev body))
          else s)"

function split_lines :: "pystr \<Rightarrow> pystr list" where
  "split_lines s =
     (case dropWhile (\<lambda>x. x \<noteq> newline) s of
        [] \<Rightarrow> [s]
      | x # rest \<Rightarrow> takeWhile (\<lambda>x. x \<noteq> newline) s # split_lines rest)"
  by pat_completeness auto
termination
proof (relation "measure length")
  show "wf (measure length)" by simp
next
  fix s :: pystr and x :: int and rest :: pystr
  assume "dropWhile (\<lambda>x. x \<noteq> newline) s = x # rest"
  moreover have "length (dropWhile (\<lambda>x. x \<noteq> newline) s) \<le> length s"
    by (rule length_dropWhile_le)
  ultimately show "(rest, s) \<in> measure length" by simp
qed

declare split_lines.simps [simp del]

fun join_lines :: "pystr list \<Rightarrow> pystr" where
  "join_lines [] = []"
| "join_lines [l] = l"
| "join_lines (l # m # ls) = l @ newline # join_lines (m # ls)"


section \<open>JSON arrays of plain strings, as text\<close>

text \<open>
  The answers the prompt asks for: \<open>render_array sep ts\<close> is the text of a JSON array
  whose elements are the strings \<open>ts\<close>, each between double quotes, with \<open>sep\<close> between
  two elements. A string is plain when it needs no escape: no double quote, no
  backslash, no control character.
\<close>

definition plain_char :: "int \<Rightarrow> bool" where
  "plain_char ch \<longleftrightarrow> 32 \<le> ch \<and> ch \<noteq> dquote \<and> ch \<noteq> backslash"

definition quoted :: "pystr \<Rightarrow> pystr" where
  "quoted t = dquote # t @ [dquote]"

definition render_array :: "pystr \<Rightarrow> pystr list \<Rightarrow> pystr" where
  "render_array sep ts = lbrack # join_strs sep (map quoted ts) @ [rbrack]"

section \<open>A backend for running the functions on given answers\<close>

text \<open>
  \<open>scripted\<close> is a backend whose state is the list of the answers it still has to
  give: every call takes the next one, a string or an exception.
\<close>

definition scripted :: "(py_error + pystr) list backend" where
  "scripted m msgs st =
     (case st of
        [] \<Rightarrow> (Inl (BackendError (str ''no answer left'')), [])
      | r # rest \<Rightarrow> (r, rest))"

section \<open>Properties of \<open>print\<close>\<close>

lemma printable_Nil: "printable console []"
  by (simp add: printable_def)

lemma printable_append:
  "printable console (a @ b) \<longleftrightarrow> printable console a \<and> printable console b"
  by (simp add: printable_def)

lemma printable_ascii:
  "\<forall>ch \<in> set text. 0 \<le> ch \<and> ch < 128 \<Longrightarrow> printable console text"
  by (simp add: printable_def can_encode_def list_all_iff)

lemma printable_notices:
  "printable console (str ''[-] GPT returned an empty response.'')"
  "printable console (str ''[*] GPT returned an unformatted response. Attempting to clean...'')"
  "printable console (str ''[-] Could not parse response.'')"
  "printable console (str ''\<newline>Generated '')"
  "printable console (str '' search terms: '')"
  "printable console (str '', '')"
  by (rule printable_ascii, simp add: str_def)+

lemma nat_digits_ascii: "\<forall>ch \<in> set (nat_digits n). 0 \<le> ch \<and> ch < 128"
proof (induction n rule: nat_digits.induct)
  case (1 n)
  show ?case
  proof (cases "n < 10")
    case True
    then show ?thesis by (subst nat_digits.simps) simp
  next
    case False
    have "n mod 10 < 10" by simp
    then have "48 + int (n mod 10) < 128" by linarith
    with False "1.IH" show ?thesis by (subst nat_digits.simps) auto
  qed
qed

lemma printable_int_str: "printable console (int_str i)"
proof (rule printable_ascii)
  show "\<forall>ch \<in> set (int_str i). 0 \<le> ch \<and> ch < 128"
    using nat_digits_ascii by (auto simp: int_str_def minus_def)
qed

lemma printable_join_strs:
  "printable console sep \<Longrightarrow>
     printable console (join_strs sep ts) \<longleftrightarrow> (\<forall>t \<in> set ts. printable console t)"
  by (induction sep ts rule: join_strs.induct) (auto simp: printable_append printable_Nil)

lemma py_print_iff: "py_print console text = Inr u \<longleftrightarrow> printable console text"
  by (simp add: py_print_def)


section \<open>Properties of \<open>generate_script\<close>\<close>

lemma replace_single: "replace [c] [] s = filter (\<lambda>x. x \<noteq> c) s"
proof (induction s)
  case Nil
  then show ?case by (simp add: replace.simps)
next
  case (Cons x xs)
  then show ?case by (subst replace.simps) simp
qed

lemma re_sub_Nil: "re_sub o' c [] = []"
  by (simp add: re_sub.simps)

lemma re_sub_skip:
  "match_here o' c (x # xs) = None \<Longrightarrow> re_sub o' c (x # xs) = x # re_sub o' c xs"
  by (subst re_sub.simps) simp

lemma re_sub_match:
  "match_here o' c (x # xs) = Some n \<Longrightarrow> re_sub o' c (x # xs) = re_sub o' c (drop n (x # xs))"
  by (subst re_sub.simps) simp

lemma set_re_sub: "set (re_sub o' c s) \<subseteq> set s"
proof (induction o' c s rule: re_sub.induct)
  case (1 o' c s)
  show ?case
  proof (cases s)
    case Nil
    then show ?thesis by (simp add: re_sub_Nil)
  next
    case (Cons x xs)
    show ?thesis
    proof (cases "match_here o' c s")
      case None
      with Cons have "re_sub o' c s = x # re_sub o' c xs"
        by (simp add: re_sub_skip)
      with Cons 1(1)[OF Cons None] show ?thesis by auto
    next
      case (Some n)
      with Cons have "re_sub o' c s = re_sub o' c (drop n s)"
        by (simp add: re_sub_match)
      moreover have "set (drop n s) \<subseteq> set s" by (rule set_drop_subset)
      ultimately show ?thesis using 1(2)[OF Cons Some] by auto
    qed
  qed
qed

lemma set_cleaned:
  "set (re_sub a b (re_sub c d (replace [h] [] (replace [s] [] r)))) \<subseteq> set r - {s, h}"
proof -
  have "set (re_sub a b (re_sub c d (replace [h] [] (replace [s] [] r))))
          \<subseteq> set (replace [h] [] (replace [s] [] r))"
    using set_re_sub [of a b] set_re_sub [of c d] by (meson order_trans)
  also have "\<dots> = set r - {s, h}"
    by (auto simp: replace_single)
  finally show ?thesis .
qed

lemma subseq_re_sub: "subseq (re_sub o' c s) s"
proof (induction o' c s rule: re_sub.induct)
  case (1 o' c s)
  show ?case
  proof (cases s)
    case Nil
    then show ?thesis by (simp add: re_sub_Nil)
  next
    case (Cons x xs)
    show ?thesis
    proof (cases "match_here o' c s")
      case None
      with Cons have "re_sub o' c s = x # re_sub o' c xs"
        by (simp add: re_sub_skip)
      with Cons 1(1)[OF Cons None] show ?thesis by simp
    next
      case (Some n)
      with Cons have "re_sub o' c s = re_sub o' c (drop n s)"
        by (simp add: re_sub_match)
      moreover have "subseq (drop n s) s"
        using suffix_drop by blast
      ultimately show ?thesis using 1(2)[OF Cons Some]
        by (metis subseq_order.order_trans)
    qed
  qed
qed

lemma subseq_cleaned:
  "subseq (re_sub a b (re_sub c d (replace [h] [] (replace [s] [] r)))) r"
proof -
  have "subseq (replace [h] [] (replace [s] [] r)) r"
    by (simp add: replace_single)
  with subseq_re_sub [of a b] subseq_re_sub [of c d] show ?thesis
    by (meson subseq_order.order_trans)
qed

lemma generate_script_Inr:
  assumes "create gpt_35_turbo_16k_0613
             [\<lparr>role = user, content = ScriptPrompt video_subject\<rparr>] st = (Inr response, st')"
  shows "generate_script console create video_subject st =
           (if printable console response then
              Inr (if response \<noteq> [] then
                     Some (re_sub lparen rparen (re_sub lbrack rbrack
                             (replace [hash] [] (replace [star] [] response))) @ [space])
                   else None)
            else Inl UnicodeEncodeError, st')"
  using assms
  by (simp add: generate_script_def Let_def py_print_def printable_notices)

lemma generate_script_Inl:
  assumes "create gpt_35_turbo_16k_0613
             [\<lparr>role = user, content = ScriptPrompt video_subject\<rparr>] st = (Inl e, st')"
  shows "generate_script console create video_subject st = (Inl e, st')"
  using assms by (simp add: generate_script_def)

text \<open>
  C3, as the code has it. For every subject and every answer of the backend that the
  console can print, \<open>generate_script\<close> returns either a string in which neither \<open>*\<close>
  nor \<open>#\<close> occurs, or \<open>None\<close>. For an answer the console cannot encode, the \<open>print\<close>
  of line 49 raises \<open>UnicodeEncodeError\<close>.
\<close>

theorem generate_script_no_star_hash:
  assumes "create gpt_35_turbo_16k_0613
             [\<lparr>role = user, content = ScriptPrompt video_subject\<rparr>] st = (Inr response, st')"
  shows "(if printable console response then
            (\<exists>script. fst (generate_script console create video_subject st) = Inr (Some script)
               \<and> star \<notin> set script \<and> hash \<notin> set script)
            \<or> fst (generate_script console create video_subject st) = Inr None
          else fst (generate_script console create video_subject st) = Inl UnicodeEncodeError)"
proof (cases "printable console response")
  case False
  then show ?thesis
    by (simp add: generate_script_Inr [of create video_subject st response st', OF assms])
next
  case p: True
  show ?thesis
  proof (cases "response = []")
    case True
    with p show ?thesis
      by (simp add: generate_script_Inr [of create video_subject st response st', OF assms])
  next
    case False
    define script where "script =
      re_sub lparen rparen (re_sub lbrack rbrack
        (replace [hash] [] (replace [star] [] response))) @ [space]"
    have "star \<noteq> space" "hash \<noteq> space" by (simp_all add: char_defs)
    with set_cleaned [of lparen rparen lbrack rbrack hash star response]
    have "star \<notin> set script \<and> hash \<notin> set script"
      by (auto simp: script_def)
    moreover have "fst (generate_script console create video_subject st) = Inr (Some script)"
      using False p
      by (simp add: generate_script_Inr [of create video_subject st response st', OF assms]
            script_def)
    ultimately show ?thesis using p by auto
  qed
qed

theorem generate_script_no_star_hash_witness:
  "fst (generate_script utf8_console scripted (str ''tea'') [Inr (str ''# Tea *is* **hot**'')])
     = Inr (Some (str '' Tea is hot ''))
   \<and> star \<notin> set (str '' Tea is hot '') \<and> hash \<notin> set (str '' Tea is hot '')
   \<and> fst (generate_script utf8_console scripted (str ''tea'') [Inr [84, 233, 55357]])
     = Inl UnicodeEncodeError"
proof -
  have c: "scripted gpt_35_turbo_16k_0613
             [\<lparr>role = user, content = ScriptPrompt (str ''tea'')\<rparr>]
             [Inr (str ''# Tea *is* **hot**'')] = (Inr (str ''# Tea *is* **hot**''), [])"
    by (simp add: scripted_def)
  have p: "printable utf8_console (str ''# Tea *is* **hot**'')"
    by code_simp
  have r: "fst (generate_script utf8_console scripted (str ''tea'')
                  [Inr (str ''# Tea *is* **hot**'')])
             = Inr (Some (str '' Tea is hot ''))"
    by code_simp
  have c': "scripted gpt_35_turbo_16k_0613
              [\<lparr>role = user, content = ScriptPrompt (str ''tea'')\<rparr>]
              [Inr [84, 233, 55357]] = (Inr [84, 233, 55357], [])"
    by (simp add: scripted_def)
  have p': "\<not> printable utf8_console [84, 233, 55357]"
    by code_simp
  from generate_script_no_star_hash [of scripted "str ''tea''" _ _ "[]" utf8_console, OF c] p r
    generate_script_no_star_hash [of scripted "str ''tea''" _ _ "[]" utf8_console, OF c'] p'
  show ?thesis by auto
qed

text \<open>
  The claim as the specification words it fails on an answer with a lone surrogate,
  on a console in UTF-8: nothing is returned.
\<close>

theorem returns_for_every_answer_counterexample:
  "generate_script utf8_console scripted (str ''tea'')
     [Inr (str ''Tea '' @ [55296] @ str '' time'')] = (Inl UnicodeEncodeError, [])"
  by code_simp

text \<open>
  C7, as the code has it. \<open>generate_script\<close> raises \<open>e\<close> exactly when the backend raises
  \<open>e\<close>, or the backend answers with a text the console cannot encode and \<open>e\<close> is
  \<open>UnicodeEncodeError\<close>. When the backend answers with a text the console can print,
  the result is \<open>None\<close> for the empty answer, and otherwise the cleaned text followed by
  one space, where the cleaned text is the answer with some characters deleted, among
  them every \<open>*\<close> and \<open>#\<close>. The backend is called once.
\<close>

theorem generate_script_returns:
  "(let call = create gpt_35_turbo_16k_0613
                 [\<lparr>role = user, content = ScriptPrompt video_subject\<rparr>] st;
        cleaned = (\<lambda>response. re_sub lparen rparen (re_sub lbrack rbrack
                     (replace [hash] [] (replace [star] [] response))))
    in (fst (generate_script console create video_subject st) = Inl e \<longleftrightarrow>
          fst call = Inl e
          \<or> (\<exists>response. fst call = Inr response \<and> \<not> printable console response)
              \<and> e = UnicodeEncodeError)
       \<and> (\<forall>response. fst call = Inr response \<and> printable console response \<longrightarrow>
             fst (generate_script console create video_subject st) =
               Inr (if response = [] then None else Some (cleaned response @ [space]))
             \<and> subseq (cleaned response) response
             \<and> star \<notin> set (cleaned response) \<and> hash \<notin> set (cleaned response))
       \<and> snd (generate_script console create video_subject st) = snd call)"
proof -
  obtain res st' where c: "create gpt_35_turbo_16k_0613
      [\<lparr>role = user, content = ScriptPrompt video_subject\<rparr>] st = (res, st')"
    by (cases "create gpt_35_turbo_16k_0613
      [\<lparr>role = user, content = ScriptPrompt video_subject\<rparr>] st")
  show ?thesis
  proof (cases res)
    case (Inl e')
    with c show ?thesis
      by (simp add: generate_script_Inl [of create video_subject st e' st'] Let_def)
  next
    case (Inr response)
    have "star \<notin> set (re_sub lparen rparen (re_sub lbrack rbrack
                     (replace [hash] [] (replace [star] [] response))))"
      "hash \<notin> set (re_sub lparen rparen (re_sub lbrack rbrack
                     (replace [hash] [] (replace [star] [] response))))"
      using set_cleaned [of lparen rparen lbrack rbrack hash star response] by auto
    with c Inr subseq_cleaned [of lparen rparen lbrack rbrack hash star response]
    show ?thesis
      by (auto simp: generate_script_Inr [of create video_subject st response st'] Let_def)
  qed
qed

theorem generate_script_returns_witness:
  "generate_script utf8_console scripted (str ''tea'') [Inr (str ''**Tea** #1 (see [2]) now'')]
     = (Inr (Some (str ''Tea 1  now '')), [])
   \<and> generate_script utf8_console scripted (str ''tea'') [Inr []] = (Inr None, [])"
proof -
  let ?r = "str ''**Tea** #1 (see [2]) now''"
  have c: "scripted gpt_35_turbo_16k_0613
             [\<lparr>role = user, content = ScriptPrompt (str ''tea'')\<rparr>] [Inr ?r] = (Inr ?r, [])"
    by (simp add: scripted_def)
  have p: "printable utf8_console ?r"
    by code_simp
  have ne: "?r \<noteq> []"
    by (simp add: str_def)
  have v: "re_sub lparen rparen (re_sub lbrack rbrack
             (replace [hash] [] (replace [star] [] ?r))) @ [space] = str ''Tea 1  now ''"
    by code_simp
  have c': "scripted gpt_35_turbo_16k_0613
              [\<lparr>role = user, content = ScriptPrompt (str ''tea'')\<rparr>] [Inr []] = (Inr [], [])"
    by (simp add: scripted_def)
  have p': "printable utf8_console []"
    by (rule printable_Nil)
  from generate_script_returns [of scripted "str ''tea''" "[Inr ?r]" utf8_console]
    c p ne v
  have 1: "generate_script utf8_console scripted (str ''tea'') [Inr ?r]
             = (Inr (Some (str ''Tea 1  now '')), [])"
    by (simp add: Let_def prod_eq_iff)
  from generate_script_returns [of scripted "str ''tea''" "[Inr []]" utf8_console]
    c' p'
  have 2: "generate_script utf8_console scripted (str ''tea'') [Inr []] = (Inr None, [])"
    by (simp add: Let_def prod_eq_iff)
  from 1 2 show ?thesis by simp
qed

text \<open>
  \<open>generate_script\<close> does raise: an exception of the backend is passed on, and an
  answer the console cannot encode raises in the \<open>print\<close> of line 49.
\<close>

theorem never_raises_counterexample:
  "generate_script utf8_console scripted (str ''tea'') [Inl (BackendError (str ''timeout''))]
     = (Inl (BackendError (str ''timeout'')), [])
   \<and> generate_script utf8_console scripted (str ''tea'')
       [Inr (str ''Tea '' @ [55296] @ str '' time'')] = (Inl UnicodeEncodeError, [])"
  by code_simp

section \<open>The two substitutions are greedy within a line\<close>

lemma star_then_None:
  "star_then c xs k = None \<Longrightarrow> j \<le> k \<Longrightarrow> j < length xs \<Longrightarrow> xs ! j \<noteq> c"
proof (induction k)
  case 0
  then show ?case by (auto split: if_splits)
next
  case (Suc k)
  from Suc.prems(1) have a: "\<not> (Suc k < length xs \<and> xs ! Suc k = c)" and b: "star_then c xs k = None"
    by (auto split: if_splits)
  show ?case
  proof (cases "j = Suc k")
    case True
    with a Suc.prems(3) show ?thesis by simp
  next
    case False
    with Suc.prems(2) have "j \<le> k" by simp
    from Suc.IH [OF b this Suc.prems(3)] show ?thesis .
  qed
qed

lemma star_then_Some:
  "star_then c xs k = Some n \<Longrightarrow> n \<le> k \<and> n < length xs \<and> xs ! n = c \<and>
     (\<forall>j. n < j \<and> j \<le> k \<and> j < length xs \<longrightarrow> xs ! j \<noteq> c)"
proof (induction k)
  case 0
  then show ?case by (auto split: if_splits)
next
  case (Suc k)
  show ?case
  proof (cases "Suc k < length xs \<and> xs ! Suc k = c")
    case True
    with Suc.prems have "n = Suc k" by simp
    with True show ?thesis by auto
  next
    case False
    with Suc.prems have s: "star_then c xs k = Some n" by simp
    from Suc.IH [OF s] False show ?thesis
      by (auto simp: le_Suc_eq)
  qed
qed

lemma match_here_no_close:
  assumes "c \<notin> set m" "c \<noteq> newline" "rest = [] \<or> hd rest = newline" "newline \<notin> set m"
  shows "match_here o' c (x # m @ rest) = None"
proof -
  have run: "takeWhile dot_matches (m @ rest) = m"
    using assms(3,4) by (cases rest) (auto simp: dot_matches_def takeWhile_append)
  have "star_then c (m @ rest) (length m) = None"
  proof (cases "star_then c (m @ rest) (length m)")
    case None then show ?thesis .
  next
    case (Some n)
    from star_then_Some [OF Some] have n: "n \<le> length m" "n < length (m @ rest)" "(m @ rest) ! n = c"
      by auto
    show ?thesis
    proof (cases "n < length m")
      case True
      with n(3) have "m ! n = c" by (simp add: nth_append)
      with True assms(1) show ?thesis by auto
    next
      case False
      with n(1) have e: "n = length m" by simp
      with n(2) have "rest \<noteq> []" by auto
      with e n(3) assms(3) have "c = newline" by (cases rest) (auto simp: nth_append)
      with assms(2) show ?thesis by simp
    qed
  qed
  with run show ?thesis by (simp add: match_here_def)
qed

lemma re_sub_no_close:
  assumes "c \<notin> set m" "c \<noteq> newline" "rest = [] \<or> hd rest = newline" "newline \<notin> set m"
  shows "re_sub o' c (m @ rest) = m @ re_sub o' c rest"
  using assms(1,4)
proof (induction m)
  case Nil
  then show ?case by simp
next
  case (Cons x m)
  then have "match_here o' c (x # m @ rest) = None"
    using assms(2,3) by (intro match_here_no_close) auto
  with Cons show ?case by (simp add: re_sub_skip)
qed

lemma re_sub_newline:
  assumes "o' \<noteq> newline"
  shows "re_sub o' c (newline # rest) = newline # re_sub o' c rest"
proof -
  have "match_here o' c (newline # rest) = None"
    using assms by (simp add: match_here_def)
  then show ?thesis by (simp add: re_sub_skip)
qed


lemma star_then_last:
  assumes "c \<notin> set b" "c \<noteq> newline" "rest = [] \<or> hd rest = newline"
  shows "star_then c ((a @ c # b) @ rest) (length (a @ c # b)) = Some (length a)"
proof (cases "star_then c ((a @ c # b) @ rest) (length (a @ c # b))")
  case None
  from star_then_None [OF None, of "length a"] show ?thesis by (simp add: nth_append)
next
  case (Some n)
  let ?xs = "(a @ c # b) @ rest"
  from star_then_Some [OF Some]
  have n: "n \<le> length (a @ c # b)" "n < length ?xs" "?xs ! n = c"
    and later: "\<And>j. n < j \<Longrightarrow> j \<le> length (a @ c # b) \<Longrightarrow> j < length ?xs \<Longrightarrow> ?xs ! j \<noteq> c"
    by auto
  have "\<not> n < length a"
  proof
    assume "n < length a"
    from later [OF this, of] show False by (simp add: nth_append)
  qed
  moreover have "\<not> length a < n"
  proof
    assume g: "length a < n"
    show False
    proof (cases "n < length (a @ c # b)")
      case True
      from g obtain i where i: "n = Suc (length a + i)"
        using less_iff_Suc_add by auto
      with True have ib: "i < length b" by simp
      with i have "?xs ! n = b ! i" by (simp add: nth_append)
      with n(3) have "b ! i = c" by simp
      with ib have "c \<in> set b" using nth_mem by blast
      with assms(1) show False by simp
    next
      case False
      with n(1) have e: "n = length (a @ c # b)" by simp
      with n(2) have "rest \<noteq> []" by auto
      with e n(3) assms(3) have "c = newline"
        by (cases rest) (auto simp: nth_append)
      with assms(2) show False by simp
    qed
  qed
  ultimately have "n = length a" by simp
  with Some show ?thesis by simp
qed

lemma remove_first_to_last_skip:
  "x \<noteq> o' \<Longrightarrow> remove_first_to_last o' c (x # l) = x # remove_first_to_last o' c l"
  by (cases "dropWhile (\<lambda>x. x \<noteq> o') l") (simp_all add: remove_first_to_last_def del: dropWhile_eq_Nil_conv)

lemma remove_first_to_last_open:
  "remove_first_to_last o' c (o' # l) =
     (if c \<in> set l then rev (takeWhile (\<lambda>x. x \<noteq> c) (rev l)) else o' # l)"
  by (simp add: remove_first_to_last_def)

lemma re_sub_line:
  assumes "o' \<noteq> newline" "c \<noteq> newline" "rest = [] \<or> hd rest = newline"
  shows "newline \<notin> set l \<Longrightarrow> re_sub o' c (l @ rest) = remove_first_to_last o' c l @ re_sub o' c rest"
proof (induction l)
  case Nil
  then show ?case by (simp add: remove_first_to_last_def)
next
  case (Cons x l)
  then have nl: "newline \<notin> set l" by simp
  show ?case
  proof (cases "x = o'")
    case False
    then have "match_here o' c (x # l @ rest) = None" by (simp add: match_here_def)
    with False Cons show ?thesis
      by (simp add: re_sub_skip remove_first_to_last_skip)
  next
    case True
    show ?thesis
    proof (cases "c \<in> set l")
      case False
      have "match_here o' c (x # l @ rest) = None"
        using False assms(2,3) nl by (rule match_here_no_close)
      moreover have "re_sub o' c (l @ rest) = l @ re_sub o' c rest"
        using False assms(2,3) nl by (rule re_sub_no_close)
      ultimately show ?thesis
        using True False by (simp add: re_sub_skip remove_first_to_last_open)
    next
      case c_in: True
      then obtain a b where l: "l = a @ c # b" and b: "c \<notin> set b"
        by (meson split_list_last)
      have run: "takeWhile dot_matches (l @ rest) = l"
        using assms(3) nl by (cases rest) (auto simp: dot_matches_def takeWhile_append)
      have "star_then c (l @ rest) (length l) = Some (length a)"
        unfolding l using b assms(2,3) by (rule star_then_last)
      with run True have m: "match_here o' c (x # l @ rest) = Some (length a + 2)"
        by (simp add: match_here_def)
      have "re_sub o' c (x # l @ rest) = re_sub o' c (drop (length a + 2) (x # l @ rest))"
        using m by (rule re_sub_match)
      also have "drop (length a + 2) (x # l @ rest) = b @ rest"
        by (simp add: l)
      also have "re_sub o' c (b @ rest) = b @ re_sub o' c rest"
        using b assms(2,3) nl by (intro re_sub_no_close) (auto simp: l)
      finally have lhs: "re_sub o' c ((x # l) @ rest) = b @ re_sub o' c rest" by simp
      have "rev (takeWhile (\<lambda>x. x \<noteq> c) (rev l)) = b"
        using b by (simp add: l takeWhile_append)
      with c_in True have "remove_first_to_last o' c (x # l) = b"
        by (simp add: remove_first_to_last_open)
      with lhs show ?thesis by simp
    qed
  qed
qed

lemma split_lines_not_Nil: "split_lines s \<noteq> []"
  by (subst split_lines.simps) (simp split: list.splits)

lemma join_lines_Cons: "ls \<noteq> [] \<Longrightarrow> join_lines (l # ls) = l @ newline # join_lines ls"
  by (cases ls) simp_all

lemma re_sub_lines:
  assumes "o' \<noteq> newline" "c \<noteq> newline"
  shows "re_sub o' c s = join_lines (map (remove_first_to_last o' c) (split_lines s))"
proof (induction s rule: split_lines.induct)
  case (1 s)
  let ?l = "takeWhile (\<lambda>x. x \<noteq> newline) s"
  let ?d = "dropWhile (\<lambda>x. x \<noteq> newline) s"
  have nl: "newline \<notin> set ?l" by (auto dest: set_takeWhileD)
  have s: "s = ?l @ ?d" by simp
  show ?case
  proof (cases ?d)
    case Nil
    then have "split_lines s = [s]" by (subst split_lines.simps) (simp only: list.case)
    moreover from Nil have ls: "?l = s" by simp
    have "re_sub o' c (?l @ []) = remove_first_to_last o' c ?l @ re_sub o' c []"
      using assms nl by (intro re_sub_line) auto
    then have "re_sub o' c s = remove_first_to_last o' c s"
      unfolding ls by (simp add: re_sub_Nil)
    ultimately show ?thesis by simp
  next
    case (Cons x rest)
    then have x: "x = newline" by (simp add: dropWhile_eq_Cons_conv)
    from Cons have sp: "split_lines s = ?l # split_lines rest"
      by (subst split_lines.simps) (simp only: list.case)
    have "re_sub o' c (?l @ ?d) = remove_first_to_last o' c ?l @ re_sub o' c ?d"
      using assms nl Cons x by (intro re_sub_line) auto
    also have "re_sub o' c ?d = newline # re_sub o' c rest"
      using assms(1) by (simp add: Cons x re_sub_newline)
    also have "re_sub o' c rest = join_lines (map (remove_first_to_last o' c) (split_lines rest))"
      using Cons by (rule "1.IH")
    finally show ?thesis
      by (simp add: sp join_lines_Cons split_lines_not_Nil)
  qed
qed


lemma set_remove_first_to_last: "set (remove_first_to_last o' c s) \<subseteq> set s"
proof (cases "dropWhile (\<lambda>x. x \<noteq> o') s")
  case Nil
  then show ?thesis by (simp add: remove_first_to_last_def del: dropWhile_eq_Nil_conv)
next
  case (Cons x body)
  have "set (takeWhile (\<lambda>x. x \<noteq> o') s) \<subseteq> set s"
    by (auto dest: set_takeWhileD)
  moreover have "set body \<subseteq> set s"
    using Cons by (metis set_dropWhileD set_subset_Cons subsetD subsetI)
  moreover have "set (rev (takeWhile (\<lambda>x. x \<noteq> c) (rev body))) \<subseteq> set body"
    by (auto dest: set_takeWhileD)
  ultimately show ?thesis
    using Cons by (auto simp: remove_first_to_last_def)
qed

lemma split_lines_no_newline: "l \<in> set (split_lines s) \<Longrightarrow> newline \<notin> set l"
proof (induction s rule: split_lines.induct)
  case (1 s)
  show ?case
  proof (cases "dropWhile (\<lambda>x. x \<noteq> newline) s")
    case Nil
    then have "split_lines s = [s]" by (subst split_lines.simps) (simp only: list.case)
    with 1 Nil show ?thesis by auto
  next
    case (Cons x rest)
    then have "split_lines s = takeWhile (\<lambda>x. x \<noteq> newline) s # split_lines rest"
      by (subst split_lines.simps) (simp only: list.case)
    with "1.prems" "1.IH" [OF Cons] show ?thesis
      by (auto dest: set_takeWhileD)
  qed
qed

lemma split_lines_line:
  assumes "newline \<notin> set l"
  shows "split_lines l = [l]"
proof -
  from assms have "dropWhile (\<lambda>x. x \<noteq> newline) l = []" by auto
  then show ?thesis by (subst split_lines.simps) (simp only: list.case)
qed

lemma split_lines_append:
  "newline \<notin> set l \<Longrightarrow> split_lines (l @ newline # rest) = l # split_lines rest"
  by (subst split_lines.simps) (simp add: dropWhile_append takeWhile_append)

lemma split_join_lines:
  "ls \<noteq> [] \<Longrightarrow> (\<forall>l \<in> set ls. newline \<notin> set l) \<Longrightarrow> split_lines (join_lines ls) = ls"
proof (induction ls rule: join_lines.induct)
  case 1
  then show ?case by simp
next
  case (2 l)
  then show ?case by (simp add: split_lines_line)
next
  case (3 l m ls)
  then show ?case by (simp add: split_lines_append)
qed

lemma re_sub_twice_lines:
  assumes "o1 \<noteq> newline" "c1 \<noteq> newline" "o2 \<noteq> newline" "c2 \<noteq> newline"
  shows "re_sub o2 c2 (re_sub o1 c1 s) =
           join_lines (map (\<lambda>l. remove_first_to_last o2 c2 (remove_first_to_last o1 c1 l))
                         (split_lines s))"
proof -
  let ?ls = "map (remove_first_to_last o1 c1) (split_lines s)"
  have "?ls \<noteq> []" by (simp add: split_lines_not_Nil)
  moreover have "\<forall>l \<in> set ?ls. newline \<notin> set l"
    using split_lines_no_newline set_remove_first_to_last by fastforce
  ultimately have "split_lines (join_lines ?ls) = ?ls" by (rule split_join_lines)
  then show ?thesis
    by (simp add: re_sub_lines assms comp_def)
qed

text \<open>
  C4, as the code has it. For a non-empty answer that the console can print, the
  stripping is greedy within each line: in every line of the answer (after \<open>*\<close> and
  \<open>#\<close> are gone) everything from the first \<open>[\<close> of the line to the last \<open>]\<close> of the line
  is removed, and then, in what is left of the line, everything from its first \<open>(\<close> to
  its last \<open>)\<close>. No removal goes across a newline. An answer the console cannot encode
  raises \<open>UnicodeEncodeError\<close> in the \<open>print\<close> of line 49.
\<close>

theorem generate_script_greedy_per_line:
  assumes "create gpt_35_turbo_16k_0613
             [\<lparr>role = user, content = ScriptPrompt video_subject\<rparr>] st = (Inr response, st')"
    and "response \<noteq> []"
  shows "fst (generate_script console create video_subject st) =
           (if printable console response then
              Inr (Some (join_lines
                     (map (\<lambda>l. remove_first_to_last lparen rparen
                                  (remove_first_to_last lbrack rbrack l))
                        (split_lines (replace [hash] [] (replace [star] [] response))))
                   @ [space]))
            else Inl UnicodeEncodeError)"
proof -
  have "re_sub lparen rparen (re_sub lbrack rbrack (replace [hash] [] (replace [star] [] response)))
        = join_lines
            (map (\<lambda>l. remove_first_to_last lparen rparen (remove_first_to_last lbrack rbrack l))
               (split_lines (replace [hash] [] (replace [star] [] response))))"
    by (rule re_sub_twice_lines) (simp_all add: char_defs)
  with assms(2) show ?thesis
    by (simp add: generate_script_Inr [of create video_subject st response st', OF assms(1)])
qed

theorem generate_script_greedy_per_line_witness:
  "fst (generate_script utf8_console scripted (str ''tea'')
          [Inr (str ''Green [1] and black [2] tea (hot) or (iced)\<newline>in [3] cups'')])
     = Inr (Some (str ''Green  tea \<newline>in  cups ''))"
proof -
  let ?r = "str ''Green [1] and black [2] tea (hot) or (iced)\<newline>in [3] cups''"
  have c: "scripted gpt_35_turbo_16k_0613
             [\<lparr>role = user, content = ScriptPrompt (str ''tea'')\<rparr>] [Inr ?r] = (Inr ?r, [])"
    by (simp add: scripted_def)
  have ne: "?r \<noteq> []"
    by (simp add: str_def)
  have p: "printable utf8_console ?r"
    by code_simp
  have v: "join_lines
             (map (\<lambda>l. remove_first_to_last lparen rparen (remove_first_to_last lbrack rbrack l))
                (split_lines (replace [hash] [] (replace [star] [] ?r)))) @ [space]
           = str ''Green  tea \<newline>in  cups ''"
    by code_simp
  from generate_script_greedy_per_line [of scripted "str ''tea''" _ _ "[]" utf8_console, OF c ne]
    p v
  show ?thesis by simp
qed

text \<open>
  The claim as the specification words it, from the first \<open>[\<close> to the last \<open>]\<close> of the
  whole string, fails on an answer of two lines: the newline between the two groups
  stays.
\<close>

theorem greedy_whole_string_counterexample:
  "fst (generate_script utf8_console scripted (str ''tea'') [Inr (str ''[a]\<newline>[b]'')])
     = Inr (Some (str ''\<newline> ''))
   \<and> remove_first_to_last lparen rparen
        (remove_first_to_last lbrack rbrack (str ''[a]\<newline>[b]'')) @ [space] = str '' ''
   \<and> fst (generate_script utf8_console scripted (str ''tea'') [Inr (str ''[a]\<newline>[b]'')])
     \<noteq> Inr (Some (remove_first_to_last lparen rparen
                     (remove_first_to_last lbrack rbrack (str ''[a]\<newline>[b]'')) @ [space]))"
  by code_simp


section \<open>Properties of the decoder\<close>

text \<open>
  Every value that is read takes at least one character of the input. So the test
  before each round of the two loops is always true, and the loops satisfy the
  equations without it.
\<close>

lemma match_number_length:
  assumes "match_number s = Some (v, r)"
  shows "length r < length s"
proof -
  define sign where "sign = (if take 1 s = [minus] then [minus] else [])"
  define s1 where "s1 = drop (length sign) s"
  define integer where "integer = int_part s1"
  define s2 where "s2 = drop (length integer) s1"
  define s3 where "s3 = drop (length (frac_part s2)) s2"
  define s4 where "s4 = drop (length (exp_part s3)) s3"
  have m: "match_number s =
     (if integer = [] then None
      else if frac_part s2 = [] \<and> exp_part s3 = [] then
        Some (PInt (if sign = [] then digits_value integer else - digits_value integer), s4)
      else Some (PFloat (sign @ integer @ frac_part s2 @ exp_part s3), s4))"
    unfolding match_number_def Let_def sign_def s1_def integer_def s2_def s3_def s4_def ..
  from assms have ne: "integer \<noteq> []" and r: "r = s4"
    unfolding m by (auto split: if_splits)
  from ne have "s1 \<noteq> []"
    by (auto simp: integer_def int_part_def)
  with ne have "length s2 < length s1" by (simp add: s2_def)
  moreover have "length s1 \<le> length s" by (simp add: s1_def)
  moreover have "length s4 \<le> length s2" by (simp add: s4_def s3_def)
  ultimately show ?thesis using r by simp
qed

lemma starts_with_drop:
  "starts_with lit s \<Longrightarrow> lit \<noteq> [] \<Longrightarrow> length (drop (length lit) s) < length s"
  by (cases s) (auto simp: starts_with_def)

lemma scan_consumes:
  "(\<forall>v r. scan_once s = Inr (v, r) \<longrightarrow> length r < length s)"
  "(\<forall>v r. parse_array s vals = Inr (v, r) \<longrightarrow> length r < length s)"
  "(\<forall>v r. parse_object s pairs = Inr (v, r) \<longrightarrow> length r < length s)"
proof (induction s and s vals and s pairs rule: scan_once_parse_array_parse_object.induct)
  case (1 s)
  show ?case
  proof (intro allI impI)
    fix v r
    assume a: "scan_once s = Inr (v, r)"
    then obtain c cs where s: "s = c # cs"
      by (cases s) (auto simp: scan_once.simps)
    consider (string) "c = dquote"
      | (object) "c \<noteq> dquote" "c = lbrace"
      | (array) "c \<noteq> dquote" "c \<noteq> lbrace" "c = lbrack"
      | (other) "c \<noteq> dquote" "c \<noteq> lbrace" "c \<noteq> lbrack"
      by blast
    then show "length r < length s"
    proof cases
      case string
      with a s obtain t where "scanstring cs = Inr (t, r)"
        by (auto simp: scan_once.simps split: sum.splits)
      from scanstring_length [OF this] s show ?thesis by simp
    next
      case object
      with a s obtain d ds where d: "skip_ws cs = d # ds"
        by (cases "skip_ws cs") (auto simp: scan_once.simps)
      show ?thesis
      proof (cases "d = rbrace")
        case True
        with a s object d have "r = ds" by (simp add: scan_once.simps)
        with skip_ws_Cons [OF d] s show ?thesis by simp
      next
        case False
        with a s object d have "parse_object (d # ds) [] = Inr (v, r)"
          by (simp add: scan_once.simps)
        with "1.IH"(1) [OF s object d False] have "length r < length (d # ds)" by blast
        with skip_ws_Cons [OF d] s show ?thesis by simp
      qed
    next
      case array
      with a s obtain d ds where d: "skip_ws cs = d # ds"
        by (cases "skip_ws cs") (auto simp: scan_once.simps)
      show ?thesis
      proof (cases "d = rbrack")
        case True
        with a s array d have "r = ds" by (simp add: scan_once.simps)
        with skip_ws_Cons [OF d] s show ?thesis by simp
      next
        case False
        with a s array d have "parse_array (d # ds) [] = Inr (v, r)"
          by (simp add: scan_once.simps)
        with "1.IH"(2) [OF s array d False] have "length r < length (d # ds)" by blast
        with skip_ws_Cons [OF d] s show ?thesis by simp
      qed
    next
      case other
      have lits: "str ''null'' \<noteq> []" "str ''true'' \<noteq> []" "str ''false'' \<noteq> []"
        "str ''NaN'' \<noteq> []" "str ''Infinity'' \<noteq> []" "str ''-Infinity'' \<noteq> []"
        by (simp_all add: str_def)
      have lens: "length (str ''null'') = 4" "length (str ''true'') = 4"
        "length (str ''false'') = 5" "length (str ''NaN'') = 3"
        "length (str ''Infinity'') = 8" "length (str ''-Infinity'') = 9"
        by (simp_all add: str_def)
      from a s other have
        "(starts_with (str ''null'') s \<and> r = drop 4 s)
         \<or> (starts_with (str ''true'') s \<and> r = drop 4 s)
         \<or> (starts_with (str ''false'') s \<and> r = drop 5 s)
         \<or> (starts_with (str ''NaN'') s \<and> r = drop 3 s)
         \<or> (starts_with (str ''Infinity'') s \<and> r = drop 8 s)
         \<or> (starts_with (str ''-Infinity'') s \<and> r = drop 9 s)
         \<or> match_number s = Some (v, r)"
        by (subst (asm) scan_once.simps) (auto split: if_splits option.splits)
      then show ?thesis
        using starts_with_drop [of _ s] lits lens match_number_length [of s v r]
        by (metis (no_types, lifting))
    qed
  qed
next
  case (2 s vals)
  show ?case
  proof (intro allI impI)
    fix v r
    assume a: "parse_array s vals = Inr (v, r)"
    then obtain val r1 where v: "scan_once s = Inr (val, r1)"
      by (subst (asm) parse_array.simps) (auto split: sum.splits)
    with "2.IH"(1) have r1: "length r1 < length s" by blast
    from a v obtain d ds where d: "skip_ws r1 = d # ds"
      by (subst (asm) parse_array.simps) (auto split: list.splits)
    from skip_ws_le [of r1] d have ds: "length ds < length r1"
      by simp
    show "length r < length s"
    proof (cases "d = rbrack")
      case True
      with a v d have "r = ds" by (subst (asm) parse_array.simps) simp
      with ds r1 show ?thesis by simp
    next
      case False
      with a v d have c: "d = comma" and g: "length ds < length s"
        and rec: "parse_array (skip_ws ds) (vals @ [val]) = Inr (v, r)"
        by (subst (asm) parse_array.simps, auto split: if_splits)+
      from "2.IH"(2) [OF v refl d False _ g] c rec
      have "length r < length (skip_ws ds)" by simp
      with skip_ws_le [of ds] g show ?thesis by simp
    qed
  qed
next
  case (3 s pairs)
  show ?case
  proof (intro allI impI)
    fix v r
    assume a: "parse_object s pairs = Inr (v, r)"
    then obtain q qs where s: "s = q # qs" and q: "q = dquote"
      by (subst (asm) parse_object.simps) (auto split: list.splits if_splits)
    from a s q obtain key r0 where k: "scanstring qs = Inr (key, r0)"
      by (subst (asm) parse_object.simps) (auto split: sum.splits)
    from a s q k obtain p r1 where p: "skip_ws r0 = p # r1" and pc: "p = colon"
      by (subst (asm) parse_object.simps) (auto split: list.splits if_splits)
    from a s q k p pc obtain val r2 where v: "scan_once (skip_ws r1) = Inr (val, r2)"
      by (subst (asm) parse_object.simps) (auto split: sum.splits)
    from a s q k p pc v obtain d ds where d: "skip_ws r2 = d # ds"
      by (subst (asm) parse_object.simps) (auto split: list.splits)
    have l0: "length r0 < length qs" using k by (rule scanstring_length)
    have l1: "length r1 < length r0" using p by (rule skip_ws_Cons)
    have "length r2 < length (skip_ws r1)"
      using "3.IH"(1) [OF s _ k refl p _] q pc v by simp
    with skip_ws_le [of r1] have l2: "length r2 < length r1" by simp
    have l3: "length ds < length r2" using d by (rule skip_ws_Cons)
    show "length r < length s"
    proof (cases "d = rbrace")
      case True
      with a s q k p pc v d have "r = ds" by (subst (asm) parse_object.simps) simp
      with l0 l1 l2 l3 s show ?thesis by simp
    next
      case False
      with a s q k p pc v d have c: "d = comma" and g: "length ds < length s"
        and rec: "parse_object (skip_ws ds) (dict_set key val pairs) = Inr (v, r)"
        by (subst (asm) parse_object.simps, auto split: if_splits)+
      have "length r < length (skip_ws ds)"
        using "3.IH"(2) [OF s _ k refl p _ v refl d False _ g] q pc c rec by simp
      with skip_ws_le [of ds] g show ?thesis by simp
    qed
  qed
qed

lemma parse_array_unguarded:
  "parse_array s vals =
     (case scan_once s of
        Inl e \<Rightarrow> Inl e
      | Inr (val, r) \<Rightarrow>
          (case skip_ws r of
             [] \<Rightarrow> Inl JSONDecodeError
           | d # ds \<Rightarrow>
               if d = rbrack then Inr (PList (vals @ [val]), ds)
               else if d \<noteq> comma then Inl JSONDecodeError
               else parse_array (skip_ws ds) (vals @ [val])))"
proof (cases "scan_once s")
  case (Inl e)
  then show ?thesis by (subst parse_array.simps) simp
next
  case (Inr p)
  obtain val r where p: "p = (val, r)" by (cases p)
  with Inr scan_consumes(1) [of s] have r: "length r < length s" by blast
  show ?thesis
  proof (cases "skip_ws r")
    case Nil
    with Inr p show ?thesis by (subst parse_array.simps) simp
  next
    case (Cons d ds)
    from skip_ws_Cons [OF Cons] r have "length ds < length s" by simp
    with Inr p Cons show ?thesis by (subst parse_array.simps) simp
  qed
qed

lemma parse_object_unguarded:
  "parse_object s pairs =
     (case s of
        [] \<Rightarrow> Inl JSONDecodeError
      | q # qs \<Rightarrow>
          if q \<noteq> dquote then Inl JSONDecodeError
          else
            (case scanstring qs of
               Inl e \<Rightarrow> Inl e
             | Inr (key, r) \<Rightarrow>
                 (case skip_ws r of
                    [] \<Rightarrow> Inl JSONDecodeError
                  | p # r1 \<Rightarrow>
                      if p \<noteq> colon then Inl JSONDecodeError
                      else
                        (case scan_once (skip_ws r1) of
                           Inl e \<Rightarrow> Inl e
                         | Inr (val, r2) \<Rightarrow>
                             (case skip_ws r2 of
                                [] \<Rightarrow> Inl JSONDecodeError
                              | d # ds \<Rightarrow>
                                  if d = rbrace then Inr (PDict (dict_set key val pairs), ds)
                                  else if d \<noteq> comma then Inl JSONDecodeError
                                  else parse_object (skip_ws ds) (dict_set key val pairs))))))"
proof -
  have g: "length ds < length s"
    if "s = q # qs" "scanstring qs = Inr (key, r)" "skip_ws r = p # r1"
      "scan_once (skip_ws r1) = Inr (val, r2)" "skip_ws r2 = d # ds"
    for q qs key r p r1 val r2 d ds
  proof -
    have "length r < length qs" using that(2) by (rule scanstring_length)
    moreover have "length r1 < length r" using that(3) by (rule skip_ws_Cons)
    moreover have "length r2 < length (skip_ws r1)"
      using that(4) scan_consumes(1) [of "skip_ws r1"] by blast
    moreover have "length ds < length r2" using that(5) by (rule skip_ws_Cons)
    ultimately show ?thesis using skip_ws_le [of r1] that(1) by simp
  qed
  show ?thesis
  proof (cases s)
    case Nil
    then show ?thesis by (subst parse_object.simps) simp
  next
    case s: (Cons q qs)
    show ?thesis
    proof (cases "scanstring qs")
      case (Inl e)
      with s show ?thesis by (subst parse_object.simps) simp
    next
      case (Inr kr)
      obtain key r where "kr = (key, r)" by (cases kr)
      with Inr have k: "scanstring qs = Inr (key, r)" by simp
      show ?thesis
      proof (cases "skip_ws r")
        case Nil
        with s k show ?thesis by (subst parse_object.simps) simp
      next
        case p: (Cons p r1)
        show ?thesis
        proof (cases "scan_once (skip_ws r1)")
          case (Inl e)
          with s k p show ?thesis by (subst parse_object.simps) simp
        next
          case (Inr vr)
          obtain val r2 where "vr = (val, r2)" by (cases vr)
          with Inr have v: "scan_once (skip_ws r1) = Inr (val, r2)" by simp
          show ?thesis
          proof (cases "skip_ws r2")
            case Nil
            with s k p v show ?thesis by (subst parse_object.simps) simp
          next
            case d: (Cons d ds)
            from g [OF s k p v d] s k p v d show ?thesis
              by (subst parse_object.simps) simp
          qed
        qed
      qed
    qed
  qed
qed

text \<open>
  The decoder reads the text of an array of plain strings back as the list of these
  strings, with any whitespace around the commas.
\<close>

lemma scanstring_plain:
  "\<forall>ch \<in> set t. plain_char ch \<Longrightarrow> scanstring (t @ dquote # rest) = Inr (t, rest)"
  by (induction t) (auto simp: plain_char_def push_char_def)

lemma scan_once_quoted:
  assumes "\<forall>ch \<in> set t. plain_char ch"
  shows "scan_once (quoted t @ rest) = Inr (PStr t, rest)"
  using scanstring_plain [OF assms, of rest]
  by (subst scan_once.simps) (simp add: quoted_def)

lemma skip_ws_append:
  "\<forall>ch \<in> set w. json_ws ch \<Longrightarrow> skip_ws (w @ s) = skip_ws s"
  by (simp add: skip_ws_def dropWhile_append)

lemma skip_ws_non_ws: "\<not> json_ws ch \<Longrightarrow> skip_ws (ch # s) = ch # s"
  by (simp add: skip_ws_def)

lemma non_ws: "\<not> json_ws comma" "\<not> json_ws rbrack" "\<not> json_ws dquote" "\<not> json_ws lbrack"
  by (simp_all add: json_ws_def char_defs)

lemma punctuation_distinct:
  "lbrack \<noteq> dquote" "lbrack \<noteq> lbrace" "comma \<noteq> rbrack" "dquote \<noteq> rbrack"
  by (simp_all add: char_defs lbrace_def)

lemma parse_array_rendered:
  assumes w: "\<forall>ch \<in> set w1. json_ws ch" "\<forall>ch \<in> set w2. json_ws ch"
  shows "\<forall>t \<in> set (t # ts). \<forall>ch \<in> set t. plain_char ch \<Longrightarrow>
         parse_array (join_strs (w1 @ comma # w2) (map quoted (t # ts)) @ rbrack # rest) vals
           = Inr (PList (vals @ map PStr (t # ts)), rest)"
proof (induction ts arbitrary: t vals)
  case Nil
  then have "scan_once (quoted t @ rbrack # rest) = Inr (PStr t, rbrack # rest)"
    by (intro scan_once_quoted) simp
  then show ?case
    by (subst parse_array_unguarded) (simp add: skip_ws_non_ws non_ws)
next
  case (Cons u ts)
  let ?more = "join_strs (w1 @ comma # w2) (map quoted (u # ts)) @ rbrack # rest"
  have "\<exists>m. ?more = dquote # m"
    by (cases ts) (simp_all add: quoted_def)
  then obtain m where q: "?more = dquote # m" ..
  from Cons.prems
  have "scan_once (quoted t @ w1 @ comma # w2 @ ?more) = Inr (PStr t, w1 @ comma # w2 @ ?more)"
    by (intro scan_once_quoted) simp
  moreover have "skip_ws (w1 @ comma # w2 @ ?more) = comma # w2 @ ?more"
    using w(1) by (simp add: skip_ws_append skip_ws_non_ws non_ws)
  moreover have "skip_ws (w2 @ ?more) = ?more"
    using w(2) unfolding q by (simp add: skip_ws_append skip_ws_non_ws non_ws)
  moreover have "parse_array ?more (vals @ [PStr t])
                   = Inr (PList ((vals @ [PStr t]) @ map PStr (u # ts)), rest)"
    using Cons.prems by (intro Cons.IH) simp
  ultimately show ?case
    by (subst parse_array_unguarded) (simp add: punctuation_distinct)
qed

lemma json_loads_render_array:
  assumes "\<forall>ch \<in> set w1. json_ws ch" "\<forall>ch \<in> set w2. json_ws ch"
    and "\<forall>t \<in> set ts. \<forall>ch \<in> set t. plain_char ch"
  shows "json_loads (PStr (render_array (w1 @ comma # w2) ts)) = Inr (PList (map PStr ts))"
proof -
  let ?body = "join_strs (w1 @ comma # w2) (map quoted ts) @ [rbrack]"
  have "scan_once (lbrack # ?body) = Inr (PList (map PStr ts), [])"
  proof (cases ts)
    case Nil
    then show ?thesis
      by (subst scan_once.simps) (simp add: skip_ws_non_ws non_ws punctuation_distinct)
  next
    case (Cons t ts')
    have "\<exists>m. ?body = dquote # m"
      unfolding Cons by (cases ts') (simp_all add: quoted_def)
    then obtain m where b: "?body = dquote # m" ..
    have p: "parse_array ?body [] = Inr (PList ([] @ map PStr ts), [])"
      unfolding Cons using assms(3) unfolding Cons by (intro parse_array_rendered assms(1,2))
    have "scan_once (lbrack # ?body) = parse_array ?body []"
      unfolding b
      by (subst scan_once.simps) (simp add: skip_ws_non_ws non_ws punctuation_distinct)
    with p show ?thesis by simp
  qed
  moreover have "\<not> starts_with [65279] (render_array (w1 @ comma # w2) ts)"
    by (simp add: starts_with_def render_array_def char_defs)
  moreover have "skip_ws (lbrack # ?body) = lbrack # ?body"
    by (simp add: skip_ws_non_ws non_ws)
  moreover have "skip_ws [] = []" by (simp add: skip_ws_def)
  ultimately show ?thesis
    by (simp add: json_loads_def decode_def render_array_def)
qed

section \<open>Properties of \<open>get_search_terms\<close>\<close>

lemma json_loads_list: "json_loads (PList xs) = Inl TypeError"
  by (simp add: json_loads_def)

lemma as_strs_map_PStr: "as_strs (map PStr ts) = Some ts"
  by (induction ts) simp_all

lemma as_strs_Some: "as_strs xs = Some ts \<Longrightarrow> xs = map PStr ts"
proof (induction xs arbitrary: ts rule: as_strs.induct)
  case 1
  then show ?case by simp
next
  case (2 t xs)
  then show ?case by auto
qed simp_all

lemma py_join_strs: "py_join sep (PList (map PStr ts)) = Inr (join_strs sep ts)"
  by (simp add: py_join_def as_strs_map_PStr)

lemma py_join_non_str:
  assumes "x \<in> set xs" "\<forall>t. x \<noteq> PStr t"
  shows "py_join sep (PList xs) = Inl TypeError"
proof (cases "as_strs xs")
  case None
  then show ?thesis by (simp add: py_join_def)
next
  case (Some ts)
  then have "xs = map PStr ts" by (rule as_strs_Some)
  with assms show ?thesis by auto
qed

text \<open>
  The handler always ends in \<open>TypeError\<close>: its notices are ASCII and print on every
  console, and \<open>json.loads\<close> is given a list.
\<close>

lemma get_search_terms_Inr:
  assumes "create gpt_35_turbo_16k_0613
             [\<lparr>role = user, content = SearchTermsPrompt video_subject amount script\<rparr>] st
           = (Inr response, st')"
  shows "get_search_terms console create video_subject amount script st =
           (case json_loads (PStr response) of
              Inl _ \<Rightarrow> (Inl TypeError, st')
            | Inr search_terms \<Rightarrow>
                (case py_join (str '', '') search_terms of
                   Inl e \<Rightarrow> (Inl e, st')
                 | Inr joined \<Rightarrow>
                     if printable console joined then (Inr search_terms, st')
                     else (Inl UnicodeEncodeError, st')))"
  using assms
  by (simp add: get_search_terms_def Let_def py_print_def printable_notices printable_append
        printable_int_str json_loads_list split: sum.splits)

lemma get_search_terms_Inl:
  assumes "create gpt_35_turbo_16k_0613
             [\<lparr>role = user, content = SearchTermsPrompt video_subject amount script\<rparr>] st
           = (Inl e, st')"
  shows "get_search_terms console create video_subject amount script st = (Inl e, st')"
  using assms by (simp add: get_search_terms_def)

text \<open>
  C5, as the code has it. When the answer decodes to a JSON array of strings that the
  console can print, \<open>get_search_terms\<close> returns that list as it is: the same strings
  in the same order, whatever \<open>amount\<close> was asked for and whatever the strings are. When
  the console cannot encode one of the strings, the \<open>print\<close> of line 138 raises
  \<open>UnicodeEncodeError\<close>.
\<close>

theorem get_search_terms_json_array:
  assumes "create gpt_35_turbo_16k_0613
             [\<lparr>role = user, content = SearchTermsPrompt video_subject amount script\<rparr>] st
           = (Inr response, st')"
    and "json_loads (PStr response) = Inr (PList (map PStr terms))"
  shows "get_search_terms console create video_subject amount script st
           = (if \<forall>t \<in> set terms. printable console t then Inr (PList (map PStr terms))
              else Inl UnicodeEncodeError, st')"
  using assms(2)
  by (simp add: get_search_terms_Inr
        [of create video_subject amount script st response st', OF assms(1)]
        py_join_strs printable_join_strs printable_notices)

theorem get_search_terms_json_array_witness:
  \<open>get_search_terms utf8_console scripted (str ''tea'') 2 (str ''Tea is hot.'')
     [Inr (str ''["a","b","one two three four five"]'')]
   = (Inr (PList [PStr (str ''a''), PStr (str ''b''), PStr (str ''one two three four five'')]), [])\<close>
proof -
  let ?r = \<open>str ''["a","b","one two three four five"]''\<close>
  let ?ts = "[str ''a'', str ''b'', str ''one two three four five'']"
  have c: "scripted gpt_35_turbo_16k_0613
             [\<lparr>role = user, content = SearchTermsPrompt (str ''tea'') 2 (str ''Tea is hot.'')\<rparr>]
             [Inr ?r] = (Inr ?r, [])"
    by (simp add: scripted_def)
  have j: "json_loads (PStr ?r) = Inr (PList (map PStr ?ts))"
    by code_simp
  have p: "\<forall>t \<in> set ?ts. printable utf8_console t"
    by code_simp
  from get_search_terms_json_array [of scripted _ _ _ _ _ "[]" _ utf8_console, OF c j] p
  show ?thesis by simp
qed

text \<open>
  The claim as the specification words it fails on the well-formed array
  \<open>["\<bsol>ud800"]\<close>, on a console in UTF-8: the answer decodes to one string, a lone
  surrogate, and printing the message raises.
\<close>

theorem returns_every_array_counterexample:
  \<open>json_loads (PStr (str ''["'' @ [backslash] @ str ''ud800"]'')) = Inr (PList [PStr [55296]])
   \<and> get_search_terms utf8_console scripted (str ''tea'') 1 (str ''Tea is hot.'')
       [Inr (str ''["'' @ [backslash] @ str ''ud800"]'')] = (Inl UnicodeEncodeError, [])\<close>
  by code_simp

text \<open>
  In particular an answer that is the text of an array of plain strings the console
  can print comes back as these strings.
\<close>

lemma get_search_terms_rendered_array:
  assumes "create gpt_35_turbo_16k_0613
             [\<lparr>role = user, content = SearchTermsPrompt video_subject amount script\<rparr>] st
           = (Inr (render_array (w1 @ comma # w2) terms), st')"
    and "\<forall>ch \<in> set w1. json_ws ch" "\<forall>ch \<in> set w2. json_ws ch"
    and "\<forall>t \<in> set terms. \<forall>ch \<in> set t. plain_char ch"
    and "\<forall>t \<in> set terms. printable console t"
  shows "get_search_terms console create video_subject amount script st
           = (Inr (PList (map PStr terms)), st')"
  using json_loads_render_array [OF assms(2,3,4)] assms(5)
  by (simp add: get_search_terms_Inr
        [of create video_subject amount script st "render_array (w1 @ comma # w2) terms" st',
         OF assms(1)] py_join_strs printable_join_strs printable_notices)

text \<open>
  C10. When the answer decodes to a JSON array with an element that is not a string,
  \<open>get_search_terms\<close> raises \<open>TypeError\<close>: the \<open>join\<close> for the console message fails
  although the decoding succeeded.
\<close>

theorem get_search_terms_non_string_element:
  assumes "create gpt_35_turbo_16k_0613
             [\<lparr>role = user, content = SearchTermsPrompt video_subject amount script\<rparr>] st
           = (Inr response, st')"
    and "json_loads (PStr response) = Inr (PList xs)"
    and "x \<in> set xs" and "\<forall>t. x \<noteq> PStr t"
  shows "get_search_terms console create video_subject amount script st = (Inl TypeError, st')"
  using assms(2) py_join_non_str [OF assms(3,4)]
  by (simp add: get_search_terms_Inr
        [of create video_subject amount script st response st', OF assms(1)])

theorem get_search_terms_non_string_element_witness:
  \<open>get_search_terms utf8_console scripted (str ''tea'') 2 (str ''Tea is hot.'')
     [Inr (str ''["tea", 7]'')] = (Inl TypeError, [])\<close>
proof -
  let ?r = \<open>str ''["tea", 7]''\<close>
  have c: "scripted gpt_35_turbo_16k_0613
             [\<lparr>role = user, content = SearchTermsPrompt (str ''tea'') 2 (str ''Tea is hot.'')\<rparr>]
             [Inr ?r] = (Inr ?r, [])"
    by (simp add: scripted_def)
  have j: "json_loads (PStr ?r) = Inr (PList [PStr (str ''tea''), PInt 7])"
    by code_simp
  have m: "PInt 7 \<in> set [PStr (str ''tea''), PInt 7]" by simp
  have n: "\<forall>t. PInt 7 \<noteq> PStr t" by simp
  from get_search_terms_non_string_element [of scripted _ _ _ _ _ "[]" _ _ utf8_console, OF c j m n]
  show ?thesis .
qed

text \<open>
  C9. Whenever the first \<open>json.loads\<close> fails, \<open>get_search_terms\<close> raises \<open>TypeError\<close>,
  whether or not the answer holds a bracketed array: the second \<open>json.loads\<close> is given
  the list from \<open>re.findall\<close>, not a string.
\<close>

theorem get_search_terms_fallback_raises:
  assumes "create gpt_35_turbo_16k_0613
             [\<lparr>role = user, content = SearchTermsPrompt video_subject amount script\<rparr>] st
           = (Inr response, st')"
    and "json_loads (PStr response) = Inl e"
  shows "get_search_terms console create video_subject amount script st = (Inl TypeError, st')"
  using assms(2)
  by (simp add: get_search_terms_Inr
        [of create video_subject amount script st response st', OF assms(1)])

theorem get_search_terms_fallback_raises_witness:
  \<open>get_search_terms utf8_console scripted (str ''tea'') 2 (str ''Tea is hot.'')
     [Inr (str ''Here you go: ["green tea", "black tea"]'')] = (Inl TypeError, [])
   \<and> re_findall lbrack rbrack (str ''Here you go: ["green tea", "black tea"]'')
       = [str ''["green tea", "black tea"]'']\<close>
proof -
  let ?r = \<open>str ''Here you go: ["green tea", "black tea"]''\<close>
  have c: "scripted gpt_35_turbo_16k_0613
             [\<lparr>role = user, content = SearchTermsPrompt (str ''tea'') 2 (str ''Tea is hot.'')\<rparr>]
             [Inr ?r] = (Inr ?r, [])"
    by (simp add: scripted_def)
  have j: "json_loads (PStr ?r) = Inl JSONDecodeError"
    by code_simp
  have f: \<open>re_findall lbrack rbrack ?r = [str ''["green tea", "black tea"]'']\<close>
    by code_simp
  from get_search_terms_fallback_raises [of scripted _ _ _ _ _ "[]" _ utf8_console, OF c j] f
  show ?thesis by simp
qed

text \<open>
  C1. For the answer \<open>Sure! ["x","y"]\<close> the search finds the array, and decoding the
  match would give the two strings; \<open>get_search_terms\<close> raises \<open>TypeError\<close> instead,
  since it decodes the list of matches.
\<close>

theorem get_search_terms_prose_wrapped_array:
  \<open>get_search_terms utf8_console scripted (str ''tea'') 2 (str ''Tea is hot.'')
     [Inr (str ''Sure! ["x","y"]'')] = (Inl TypeError, [])
   \<and> re_findall lbrack rbrack (str ''Sure! ["x","y"]'') = [str ''["x","y"]'']
   \<and> json_loads (PStr (str ''["x","y"]'')) = Inr (PList [PStr (str ''x''), PStr (str ''y'')])\<close>
  by code_simp

text \<open>
  C2, as the code has it. When the answer is not JSON and holds no bracketed array,
  \<open>get_search_terms\<close> raises \<open>TypeError\<close> to its caller; it does not return the empty
  list.
\<close>

theorem get_search_terms_no_array_raises:
  assumes "create gpt_35_turbo_16k_0613
             [\<lparr>role = user, content = SearchTermsPrompt video_subject amount script\<rparr>] st
           = (Inr response, st')"
    and "json_loads (PStr response) = Inl e"
    and "re_findall lbrack rbrack response = []"
  shows "get_search_terms console create video_subject amount script st = (Inl TypeError, st')
         \<and> fst (get_search_terms console create video_subject amount script st) \<noteq> Inr (PList [])"
  using assms(2)
  by (simp add: get_search_terms_Inr
        [of create video_subject amount script st response st', OF assms(1)])

theorem get_search_terms_no_array_raises_witness:
  \<open>get_search_terms utf8_console scripted (str ''tea'') 2 (str ''Tea is hot.'')
     [Inr (str ''I cannot help with that.'')] = (Inl TypeError, [])\<close>
proof -
  let ?r = \<open>str ''I cannot help with that.''\<close>
  have c: "scripted gpt_35_turbo_16k_0613
             [\<lparr>role = user, content = SearchTermsPrompt (str ''tea'') 2 (str ''Tea is hot.'')\<rparr>]
             [Inr ?r] = (Inr ?r, [])"
    by (simp add: scripted_def)
  have j: "json_loads (PStr ?r) = Inl JSONDecodeError"
    by code_simp
  have f: "re_findall lbrack rbrack ?r = []"
    by code_simp
  from get_search_terms_no_array_raises [of scripted _ _ _ _ _ "[]" _ utf8_console, OF c j f]
  show ?thesis by simp
qed

text \<open>
  It is not the only failure that reaches the caller: the answer \<open>[1, 2]\<close> decodes and
  still raises, and an exception of the backend is passed on.
\<close>

theorem only_failure_counterexample:
  \<open>get_search_terms utf8_console scripted (str ''tea'') 2 (str ''Tea is hot.'')
     [Inr (str ''[1, 2]'')] = (Inl TypeError, [])
   \<and> json_loads (PStr (str ''[1, 2]'')) = Inr (PList [PInt 1, PInt 2])
   \<and> get_search_terms utf8_console scripted (str ''tea'') 2 (str ''Tea is hot.'')
         [Inl (BackendError (str ''timeout''))]
     = (Inl (BackendError (str ''timeout'')), [])\<close>
  by code_simp

section \<open>Properties of \<open>generate_metadata\<close>\<close>

lemma rev_dropWhile_split:
  "xs = rev (dropWhile P (rev xs)) @ rev (takeWhile P (rev xs))"
  by (metis rev_append rev_rev_ident takeWhile_dropWhile_id)

lemma strip_decomp:
  "\<exists>l r. s = l @ strip s @ r \<and> (\<forall>ch \<in> set l. py_isspace ch) \<and> (\<forall>ch \<in> set r. py_isspace ch)"
proof -
  let ?l = "takeWhile py_isspace s"
  let ?d = "dropWhile py_isspace s"
  let ?r = "rev (takeWhile py_isspace (rev ?d))"
  have "?d = strip s @ ?r"
    unfolding strip_def by (rule rev_dropWhile_split)
  then have "s = ?l @ strip s @ ?r"
    by (metis takeWhile_dropWhile_id)
  moreover have "\<forall>ch \<in> set ?l. py_isspace ch"
    by (auto dest: set_takeWhileD)
  moreover have "\<forall>ch \<in> set ?r. py_isspace ch"
    by (auto dest: set_takeWhileD)
  ultimately show ?thesis by blast
qed

lemma strip_ends:
  assumes "strip s \<noteq> []"
  shows "\<not> py_isspace (hd (strip s)) \<and> \<not> py_isspace (last (strip s))"
proof -
  let ?d = "dropWhile py_isspace s"
  let ?e = "dropWhile py_isspace (rev ?d)"
  from assms have e: "?e \<noteq> []" by (simp add: strip_def)
  then have "\<not> py_isspace (hd ?e)" by (metis hd_dropWhile)
  moreover have "last (strip s) = hd ?e"
    using e by (simp add: strip_def last_rev)
  moreover have "?d \<noteq> []"
  proof
    assume "?d = []"
    then have "?e = []" by (simp del: dropWhile_eq_Nil_conv)
    with e show False by simp
  qed
  then have "\<not> py_isspace (hd ?d)" by (metis hd_dropWhile)
  moreover have "hd (strip s) = hd ?d"
  proof -
    have "?d = strip s @ rev (takeWhile py_isspace (rev ?d))"
      unfolding strip_def by (rule rev_dropWhile_split)
    with assms show ?thesis by (metis hd_append2)
  qed
  ultimately show ?thesis by simp
qed

text \<open>
  C6. When the two completions answer and \<open>get_search_terms\<close> returns, the title is
  the first answer stripped, the description is the second answer stripped, and the
  keywords are what \<open>get_search_terms\<close> returns for the same subject and script with
  the amount 6. Stripping takes nothing but whitespace from the two ends, and leaves
  no whitespace there.
\<close>

theorem generate_metadata_result:
  assumes "create gpt_35_turbo_16k_0613
             [\<lparr>role = user, content = TitlePrompt video_subject\<rparr>] st
           = (Inr title_response, st1)"
    and "create gpt_35_turbo_16k_0613
             [\<lparr>role = user, content = DescriptionPrompt video_subject script\<rparr>] st1
           = (Inr description_response, st2)"
    and "get_search_terms console create video_subject 6 script st2 = (Inr keywords, st3)"
  shows "generate_metadata console create video_subject script st
           = (Inr (strip title_response, strip description_response, keywords), st3)
         \<and> (\<exists>l r. title_response = l @ strip title_response @ r
                \<and> (\<forall>ch \<in> set l. py_isspace ch) \<and> (\<forall>ch \<in> set r. py_isspace ch))
         \<and> (\<exists>l r. description_response = l @ strip description_response @ r
                \<and> (\<forall>ch \<in> set l. py_isspace ch) \<and> (\<forall>ch \<in> set r. py_isspace ch))
         \<and> (strip title_response = []
              \<or> \<not> py_isspace (hd (strip title_response))
                \<and> \<not> py_isspace (last (strip title_response)))
         \<and> (strip description_response = []
              \<or> \<not> py_isspace (hd (strip description_response))
                \<and> \<not> py_isspace (last (strip description_response)))"
proof -
  have "generate_metadata console create video_subject script st
          = (Inr (strip title_response, strip description_response, keywords), st3)"
    using assms by (simp add: generate_metadata_def Let_def)
  with strip_decomp [of title_response] strip_decomp [of description_response]
    strip_ends [of title_response] strip_ends [of description_response]
  show ?thesis by blast
qed

theorem generate_metadata_result_witness:
  \<open>generate_metadata utf8_console scripted (str ''tea'') (str ''Tea is hot.'')
     [Inr (str ''  **Tea** #1 [hot] (now)\<newline>''),
      Inr (str '' A *short* video (about) tea. ''),
      Inr (str ''["a","b","c","d","e","f"]'')]
   = (Inr (str ''**Tea** #1 [hot] (now)'', str ''A *short* video (about) tea.'',
           PList [PStr (str ''a''), PStr (str ''b''), PStr (str ''c''),
                  PStr (str ''d''), PStr (str ''e''), PStr (str ''f'')]), [])\<close>
proof -
  let ?t = \<open>str ''  **Tea** #1 [hot] (now)\<newline>''\<close>
  let ?d = \<open>str '' A *short* video (about) tea. ''\<close>
  let ?k = \<open>str ''["a","b","c","d","e","f"]''\<close>
  let ?kw = \<open>PList [PStr (str ''a''), PStr (str ''b''), PStr (str ''c''),
                  PStr (str ''d''), PStr (str ''e''), PStr (str ''f'')]\<close>
  have c1: "scripted gpt_35_turbo_16k_0613
              [\<lparr>role = user, content = TitlePrompt (str ''tea'')\<rparr>]
              [Inr ?t, Inr ?d, Inr ?k] = (Inr ?t, [Inr ?d, Inr ?k])"
    by (simp add: scripted_def)
  have c2: "scripted gpt_35_turbo_16k_0613
              [\<lparr>role = user, content = DescriptionPrompt (str ''tea'') (str ''Tea is hot.'')\<rparr>]
              [Inr ?d, Inr ?k] = (Inr ?d, [Inr ?k])"
    by (simp add: scripted_def)
  have c3: "get_search_terms utf8_console scripted (str ''tea'') 6 (str ''Tea is hot.'') [Inr ?k]
              = (Inr ?kw, [])"
    by code_simp
  have s1: \<open>strip ?t = str ''**Tea** #1 [hot] (now)''\<close>
    by code_simp
  have s2: \<open>strip ?d = str ''A *short* video (about) tea.''\<close>
    by code_simp
  from generate_metadata_result
         [where create = scripted and console = utf8_console, OF c1 c2 c3] s1 s2
  show ?thesis by simp
qed

text \<open>
  C8. \<open>generate_metadata\<close> raises \<open>e\<close> exactly when the title completion raises \<open>e\<close>,
  or the title completion answers and the description completion raises \<open>e\<close>, or both
  answer and \<open>get_search_terms\<close> raises \<open>e\<close>. The exception is the one that was raised,
  and the backend is left in the state the last of these calls left it in: nothing is
  called again.
\<close>

theorem generate_metadata_fails_iff:
  "(let title_call = create gpt_35_turbo_16k_0613
                         [\<lparr>role = user, content = TitlePrompt video_subject\<rparr>] st;
        description_call = create gpt_35_turbo_16k_0613
                         [\<lparr>role = user, content = DescriptionPrompt video_subject script\<rparr>]
                         (snd title_call);
        keywords_call = get_search_terms console create video_subject 6 script (snd description_call)
    in (fst (generate_metadata console create video_subject script st) = Inl e \<longleftrightarrow>
          fst title_call = Inl e
          \<or> (\<exists>t. fst title_call = Inr t) \<and> fst description_call = Inl e
          \<or> (\<exists>t. fst title_call = Inr t) \<and> (\<exists>d. fst description_call = Inr d)
              \<and> fst keywords_call = Inl e)
       \<and> snd (generate_metadata console create video_subject script st) =
           (case fst title_call of
              Inl _ \<Rightarrow> snd title_call
            | Inr _ \<Rightarrow>
                (case fst description_call of
                   Inl _ \<Rightarrow> snd description_call
                 | Inr _ \<Rightarrow> snd keywords_call)))"
  by (auto simp: generate_metadata_def Let_def split: prod.splits sum.splits)

theorem generate_metadata_fails_iff_witness:
  "generate_metadata utf8_console scripted (str ''tea'') (str ''Tea is hot.'')
          [Inr (str ''Tea''), Inl (BackendError (str ''timeout'')), Inr (str ''[]'')]
     = (Inl (BackendError (str ''timeout'')), [Inr (str ''[]'')])
   \<and> generate_metadata utf8_console scripted (str ''tea'') (str ''Tea is hot.'')
          [Inr (str ''Tea''), Inr (str ''About tea.''), Inr (str ''no terms'')]
     = (Inl TypeError, [])"
proof -
  have k: "get_search_terms utf8_console scripted (str ''tea'') 6 (str ''Tea is hot.'') [Inr (str ''no terms'')]
             = (Inl TypeError, [])"
    by code_simp
  have "generate_metadata utf8_console scripted (str ''tea'') (str ''Tea is hot.'')
          [Inr (str ''Tea''), Inl (BackendError (str ''timeout'')), Inr (str ''[]'')]
     = (Inl (BackendError (str ''timeout'')), [Inr (str ''[]'')])"
    using generate_metadata_fails_iff
      [where create = scripted and console = utf8_console and video_subject = "str ''tea''"
         and script = "str ''Tea is hot.''" and e = "BackendError (str ''timeout'')"
         and st = "[Inr (str ''Tea''), Inl (BackendError (str ''timeout'')), Inr (str ''[]'')]"]
    by (simp add: scripted_def Let_def prod_eq_iff)
  moreover have "generate_metadata utf8_console scripted (str ''tea'') (str ''Tea is hot.'')
          [Inr (str ''Tea''), Inr (str ''About tea.''), Inr (str ''no terms'')]
     = (Inl TypeError, [])"
    using generate_metadata_fails_iff
      [where create = scripted and console = utf8_console and video_subject = "str ''tea''"
         and script = "str ''Tea is hot.''" and e = TypeError
         and st = "[Inr (str ''Tea''), Inr (str ''About tea.''), Inr (str ''no terms'')]"] k
    by (simp add: scripted_def Let_def prod_eq_iff)
  ultimately show ?thesis by simp
qed

end
